theory Spec2Isabelle
  imports Complex_Main "HOL-Library.Word" "HOL-Library.Multiset" "HOL-Library.Sublist"
begin

section \<open>The data of cmd/daemon.go\<close>

text \<open>
  The configuration structs of the daemon. Go's \<open>int\<close> fields are integers; the only
  arithmetic the program does on them is the conversion of an interval to a
  \<open>time.Duration\<close> (an \<open>int64\<close> of nanoseconds), modelled below with its wrap-around.
\<close>

record Device =
  Ip :: string
  Username :: string
  Password :: string

record PrometheusConf =
  Endpoint :: string
  PromUsername :: string
  PromPassword :: string
  FlushInterval :: int

record Config =
  Interval :: int
  Devices :: "Device list"
  Prometheus :: PrometheusConf

text \<open>
  The \<open>prompb\<close> messages the program builds. A \<open>float64\<close> reading is only compared
  with zero and copied, never computed with, so it is a real number here; the
  timestamp is the \<open>int64\<close> of \<open>time.Now().UnixMilli()\<close>, a 64-bit word read
  with \<open>sint\<close>.
\<close>

type_synonym float64 = real
type_synonym int64 = "64 word"

record Label =
  Name :: string
  Value :: string

record Sample =
  Timestamp :: int64
  Sample_Value :: float64

record TimeSeries =
  Labels :: "Label list"
  Samples :: "Sample list"

text \<open>
  \<open>GetEnergyUsage\<close> returns a \<open>map[string]interface{}\<close> decoded from JSON and an
  error. A dynamic value is nil, a \<open>float64\<close>, a string, a bool or a nested map; a Go
  map is an association list read with \<open>map_of\<close>, the nil map being the empty list
  (indexing a nil map yields the zero value, as indexing a missing key does).
\<close>

datatype interface =
    JNil
  | JFloat64 float64
  | JString string
  | JBool bool
  | JMap "(string \<times> interface) list"

type_synonym gomap = "(string \<times> interface) list"

text \<open>A Go \<open>error\<close> value: \<open>None\<close> is nil, \<open>Some msg\<close> carries \<open>err.Error()\<close>.\<close>

type_synonym error = "string option"

text \<open>
  The error of \<open>remote.WriteClient.Store\<close>: the program tells a
  \<open>remote.RecoverableError\<close> from every other error by a type assertion.
\<close>

datatype store_error = RecoverableError string | OtherError string

definition index :: "gomap \<Rightarrow> string \<Rightarrow> interface" where
  "index m k = (case map_of m k of None \<Rightarrow> JNil | Some v \<Rightarrow> v)"

text \<open>
  The single-value type assertions \<open>x.(map[string]interface{})\<close> and \<open>x.(float64)\<close>:
  they panic (\<open>None\<close>) when the dynamic type is another one, nil included.
\<close>

definition assert_map :: "interface \<Rightarrow> gomap option" where
  "assert_map x = (case x of JMap m \<Rightarrow> Some m | _ \<Rightarrow> None)"

definition assert_float64 :: "interface \<Rightarrow> float64 option" where
  "assert_float64 x = (case x of JFloat64 v \<Rightarrow> Some v | _ \<Rightarrow> None)"

text \<open>
  Line 220: \<open>r["result"].(map[string]interface{})["current_power"].(float64)\<close>.
\<close>

definition current_power :: "gomap \<Rightarrow> float64 option" where
  "current_power r =
     (case assert_map (index r ''result'') of
        None \<Rightarrow> None
      | Some m \<Rightarrow> assert_float64 (index m ''current_power''))"

text \<open>
  \<open>time.Duration(interval) * time.Second\<close> in 64-bit two's complement, and the check
  of \<open>time.NewTicker\<close>, which panics on a duration that is not positive.
\<close>

definition seconds :: "int \<Rightarrow> int64" where
  "seconds n = word_of_int n * 1000000000"

definition NewTicker_ok :: "int64 \<Rightarrow> bool" where
  "NewTicker_ok d = (0 < sint d)"


section \<open>The process: goroutines, the channels and the WaitGroup\<close>

text \<open>
  The daemon is the main goroutine (the \<open>RunE\<close> of \<open>daemonCmd\<close>), one
  \<open>CollectEnergyUsage\<close> goroutine for each client and one \<open>RemoteWrite\<close> goroutine.
  Each goroutine is at one of a few control points between its steps:
  not yet running, waiting in its \<open>select\<close>, blocked in the send \<open>metrics <- ts\<close>
  (the channel \<open>metrics\<close> is made without a buffer, so the send waits for the receive
  of \<open>RemoteWrite\<close>), or returned.
\<close>

datatype goroutine = NotStarted | InSelect | InSend TimeSeries | Returned

datatype proc = Running | Exited nat

datatype Level = FatalLevel | WarnLevel | InfoLevel | DebugLevel

datatype task = Collector nat | Writer

text \<open>
  What the process does to the outside and to its synchronisation objects, in order:
  the calls of the logger (level and format string, whatever level the logger prints),
  \<open>tapo.NewTapo\<close> for a device, \<open>wg.Add(1)\<close>, a \<open>go\<close> statement, \<open>wg.Done()\<close> by a
  task, the start of a send on \<open>metrics\<close> by a collector, and a call of \<open>c.Store\<close>
  with the encoded write request of a batch together with the error it returned.

  The state holds the slice \<open>cs\<close> of clients (a client is its device: the handle
  \<open>t\<close> only serves to call \<open>GetEnergyUsage\<close>, whose result is an input of the tick),
  the goroutines of the collectors with the client each was started with, the
  goroutine of \<open>RemoteWrite\<close> and its batch \<open>tss\<close>.
\<close>

datatype action =
    Log Level string
  | Connect Device
  | WgAdd
  | Go task
  | WgDone task
  | Send nat TimeSeries
  | Store "TimeSeries list" "store_error option"

record sys =
  proc :: proc
  stop_closed :: bool
  wg :: int
  cs :: "Device list"
  collectors :: "(Device \<times> goroutine) list"
  writer :: goroutine
  tss :: "TimeSeries list"
  trace :: "action list"

definition init :: sys where
  "init = \<lparr>proc = Running, stop_closed = False, wg = 0, cs = [], collectors = [],
     writer = NotStarted, tss = [], trace = []\<rparr>"

subsection \<open>Statements\<close>

text \<open>
  A statement runs only in a running process: after \<open>os.Exit\<close> or a panic nothing
  of the program runs any more. A block runs its statements in order.
\<close>

definition stmt :: "(sys \<Rightarrow> sys) \<Rightarrow> sys \<Rightarrow> sys" where
  "stmt f s = (if proc s = Running then f s else s)"

fun block :: "(sys \<Rightarrow> sys) list \<Rightarrow> sys \<Rightarrow> sys" where
  "block [] s = s"
| "block (f # fs) s = block fs (stmt f s)"

definition emit :: "action \<Rightarrow> sys \<Rightarrow> sys" where
  "emit a s = s\<lparr>trace := trace s @ [a]\<rparr>"

definition os_Exit :: "nat \<Rightarrow> sys \<Rightarrow> sys" where
  "os_Exit code s = s\<lparr>proc := Exited code\<rparr>"

text \<open>An unrecovered panic in any goroutine ends the process with status 2.\<close>

definition panic :: "sys \<Rightarrow> sys" where
  "panic s = os_Exit 2 s"

text \<open>
  The logger is logrus. \<open>log.Debug\<close>, \<open>log.Info\<close> and \<open>log.Warning\<close> (and their
  \<open>f\<close> forms) log and return. \<open>log.Fatal\<close> and \<open>log.Fatalf\<close> log and then call
  \<open>os.Exit(1)\<close>: the statements the source writes after them are never reached,
  which \<open>block\<close> renders.
\<close>

definition log :: "Level \<Rightarrow> string \<Rightarrow> sys \<Rightarrow> sys" where
  "log l m s = emit (Log l m) s"

definition log_Fatal :: "string \<Rightarrow> sys \<Rightarrow> sys" where
  "log_Fatal m s = os_Exit 1 (log FatalLevel m s)"

text \<open>
  \<open>cobra.CheckErr(msg)\<close> with a message that is not nil prints it on the standard
  error stream and calls \<open>os.Exit(1)\<close>.
\<close>

definition CheckErr :: "sys \<Rightarrow> sys" where
  "CheckErr s = os_Exit 1 s"

text \<open>\<open>close(stop)\<close>; closing a closed channel panics.\<close>

definition close_stop :: "sys \<Rightarrow> sys" where
  "close_stop s = (if stop_closed s then panic s else s\<lparr>stop_closed := True\<rparr>)"

text \<open>\<open>wg.Add(1)\<close> and \<open>wg.Done()\<close>; a counter that would go negative panics.\<close>

definition wg_Add :: "sys \<Rightarrow> sys" where
  "wg_Add s = emit WgAdd (s\<lparr>wg := wg s + 1\<rparr>)"

definition wg_Done :: "task \<Rightarrow> sys \<Rightarrow> sys" where
  "wg_Done t s = (if wg s \<le> 0 then panic s else emit (WgDone t) (s\<lparr>wg := wg s - 1\<rparr>))"

definition set_collector :: "nat \<Rightarrow> goroutine \<Rightarrow> sys \<Rightarrow> sys" where
  "set_collector i g s =
     s\<lparr>collectors := (collectors s)[i := (fst (collectors s ! i), g)]\<rparr>"

definition set_writer :: "goroutine \<Rightarrow> sys \<Rightarrow> sys" where
  "set_writer g s = s\<lparr>writer := g\<rparr>"

section \<open>The main goroutine: RunE of daemonCmd (lines 60-103)\<close>

text \<open>
  Lines 76-84, the body of the loop over \<open>conf.Devices\<close>: \<open>tapo.NewTapo\<close> is called
  for the device (its error is the parameter \<open>NewTapo\<close>), a failure ends the process
  through \<open>cobra.CheckErr\<close>, otherwise the client is appended to \<open>cs\<close>.
\<close>

definition connect :: "(Device \<Rightarrow> error) \<Rightarrow> Device \<Rightarrow> sys \<Rightarrow> sys" where
  "connect NewTapo dv =
     block [emit (Connect dv),
            (\<lambda>s. if NewTapo dv \<noteq> None then CheckErr s else s),
            (\<lambda>s. s\<lparr>cs := cs s @ [dv]\<rparr>),
            log InfoLevel ''connected to device %s'']"

text \<open>
  Lines 91-95, the body of the loop over \<open>cs\<close>: \<open>wg.Add(1)\<close>, a log line, and the
  \<open>go\<close> statement; the new goroutine is the next entry of \<open>collectors\<close>.
\<close>

definition start_collector :: "Device \<Rightarrow> sys \<Rightarrow> sys" where
  "start_collector c =
     block [wg_Add,
            log InfoLevel ''starting CollectEnergyUsage for %s'',
            (\<lambda>s. emit (Go (Collector (length (collectors s))))
                   (s\<lparr>collectors := collectors s @ [(c, NotStarted)]\<rparr>))]"

text \<open>
  \<open>RunE\<close> up to \<open>wg.Wait()\<close>, from a configuration that was read. The start-up of
  the main goroutine is one step of the model: the goroutines it starts take their
  first steps after it.
\<close>

definition RunE :: "(Device \<Rightarrow> error) \<Rightarrow> Config \<Rightarrow> sys" where
  "RunE NewTapo conf =
     block [(\<lambda>s. if Devices conf = [] then CheckErr s else s),
            fold (connect NewTapo) (Devices conf),
            (\<lambda>s. fold start_collector (cs s) s),
            log InfoLevel ''starting RemoteWriter'',
            wg_Add,
            emit (Go Writer)] init"

text \<open>
  Modelled from the spec: the function \<open>main\<close> is not in cmd/daemon.go. It calls
  \<open>Execute\<close>, whose \<open>cobra.CheckErr\<close> does nothing on the nil that \<open>RunE\<close>
  returns after \<open>wg.Wait()\<close>, and returns; the process then exits with status 0
  ("0 on clean shutdown").
\<close>

definition main_returns :: "sys \<Rightarrow> sys" where
  "main_returns s = os_Exit 0 s"

section \<open>CollectEnergyUsage (lines 195-233)\<close>

text \<open>Line 201: the ticker of the collector.\<close>

definition CollectEnergyUsage_start :: "nat \<Rightarrow> int \<Rightarrow> sys \<Rightarrow> sys" where
  "CollectEnergyUsage_start i interval s =
     (if NewTicker_ok (seconds interval) then set_collector i InSelect s else panic s)"

text \<open>Lines 205-211: the case of the closed \<open>stop\<close> channel.\<close>

definition CollectEnergyUsage_stop :: "nat \<Rightarrow> sys \<Rightarrow> sys" where
  "CollectEnergyUsage_stop i =
     block [log InfoLevel ''stopping CollectEnergyUsage %s'',
            wg_Done (Collector i),
            set_collector i Returned]"

text \<open>Lines 221-230: the time series of one reading.\<close>

definition timeseries :: "Device \<Rightarrow> float64 \<Rightarrow> int64 \<Rightarrow> TimeSeries" where
  "timeseries c v now =
     \<lparr>Labels = [\<lparr>Name = ''ip'', Value = Ip c\<rparr>,
                 \<lparr>Name = ''__name__'', Value = ''current_power''\<rparr>],
      Samples = [\<lparr>Timestamp = now, Sample_Value = v\<rparr>]\<rparr>"

text \<open>
  Lines 212-230: the case of the ticker. \<open>r\<close> and \<open>err\<close> are what
  \<open>c.t.GetEnergyUsage()\<close> returned and \<open>now\<close> is \<open>time.Now().UnixMilli()\<close>. Neither
  \<open>if\<close> leaves the case: after the warnings the reading is taken out of \<open>r\<close> by two
  type assertions and sent.
\<close>

definition CollectEnergyUsage_tick ::
    "nat \<Rightarrow> Device \<Rightarrow> gomap \<Rightarrow> error \<Rightarrow> int64 \<Rightarrow> sys \<Rightarrow> sys" where
  "CollectEnergyUsage_tick i c r err now =
     block [(\<lambda>s. case err of None \<Rightarrow> s | Some e \<Rightarrow> log WarnLevel e s),
            (\<lambda>s. if index r ''error_code'' \<noteq> JFloat64 0
                  then log WarnLevel ''non zero error code'' s else s),
            (\<lambda>s. case current_power r of
                    None \<Rightarrow> panic s
                  | Some v \<Rightarrow>
                      emit (Send i (timeseries c v now))
                        (set_collector i (InSend (timeseries c v now)) s))]"

section \<open>RemoteWrite (lines 110-193)\<close>

text \<open>
  Lines 120-149. \<open>url_Parse\<close> is \<open>url.Parse\<close> of net/url, as the error it returns
  for a string; \<open>client_err\<close> is the error of \<open>remote.NewWriteClient\<close>. Both error
  paths are written \<open>log.Fatal; close(stop); return\<close>, with no \<open>wg.Done()\<close>. The
  sleep of line 147 only takes time; line 149 makes the flush ticker.
\<close>

definition RemoteWrite_start :: "(string \<Rightarrow> error) \<Rightarrow> Config \<Rightarrow> error \<Rightarrow> sys \<Rightarrow> sys" where
  "RemoteWrite_start url_Parse conf client_err s =
     (if url_Parse (Endpoint (Prometheus conf)) \<noteq> None then
        block [log_Fatal ''cannot parse endpoint url, stopping'',
               close_stop,
               set_writer Returned] s
      else if client_err \<noteq> None then
        block [log_Fatal ''error %s'', close_stop, set_writer Returned] s
      else if NewTicker_ok (seconds (FlushInterval (Prometheus conf)))
        then set_writer InSelect s
      else panic s)"

text \<open>Lines 154-160: the case of the closed \<open>stop\<close> channel.\<close>

definition RemoteWrite_stop :: "sys \<Rightarrow> sys" where
  "RemoteWrite_stop =
     block [log InfoLevel ''stopping RemoteWrite'', wg_Done Writer, set_writer Returned]"

text \<open>
  Lines 163-164: the body of the case \<open>ts = <-metrics\<close>, for the received \<open>ts\<close>.
\<close>

definition receive :: "TimeSeries \<Rightarrow> sys \<Rightarrow> sys" where
  "receive ts =
     block [log DebugLevel ''received time-series'', (\<lambda>s. s\<lparr>tss := tss s @ [ts]\<rparr>)]"

text \<open>
  Line 162: the receive from \<open>metrics\<close> completes the send of collector \<open>i\<close>, which
  goes back to its \<open>select\<close>.
\<close>

definition RemoteWrite_metrics :: "nat \<Rightarrow> sys \<Rightarrow> sys" where
  "RemoteWrite_metrics i s =
     (case snd (collectors s ! i) of
        InSend ts \<Rightarrow> receive ts (set_collector i InSelect s)
      | _ \<Rightarrow> s)"

text \<open>
  Lines 166-189: the case of the flush ticker. \<open>marshal_err\<close> is the error of
  \<open>proto.Marshal\<close> on the write request of \<open>tss\<close> and \<open>store_err\<close> the error of
  \<open>c.Store\<close> on its encoding. Every \<open>continue\<close> goes back to the \<open>select\<close>; only the
  last line of the case assigns \<open>tss\<close>.
\<close>

definition RemoteWrite_tick :: "error \<Rightarrow> store_error option \<Rightarrow> sys \<Rightarrow> sys" where
  "RemoteWrite_tick marshal_err store_err s0 =
     (let s = stmt (log DebugLevel ''performing batched remote write for %d timeseries'') s0
      in if tss s = [] then s
      else if marshal_err \<noteq> None then
        block [log_Fatal ''unable to marshal protobuf: %v'', close_stop] s
      else
        (let s = stmt (emit (Store (tss s) store_err)) s in
         case store_err of
           Some (RecoverableError e) \<Rightarrow> block [log InfoLevel ''recoverable error %s''] s
         | Some (OtherError e) \<Rightarrow>
             block [log_Fatal ''error pushing timeseries: %s'', close_stop] s
         | None \<Rightarrow>
             block [log InfoLevel ''pushed %d timeseries'', (\<lambda>s. s\<lparr>tss := []\<rparr>)] s))"

section \<open>The steps of the process\<close>

text \<open>
  One event is one step of one goroutine, from the point where it wakes up to the next
  point where it waits, together with what the outside returned to it in that step
  (\<open>url.Parse\<close> is a function of its argument and is a parameter of the steps).
  \<open>WaitReturn\<close> is the return of \<open>wg.Wait()\<close> in the main goroutine. Time is not
  measured: a tick is an event, and a \<open>select\<close> with several ready cases may take
  any of them.
\<close>

datatype event =
    CollectorStart nat
  | CollectorTick nat gomap error int64
  | CollectorStop nat
  | WriterStart error
  | WriterMetrics nat
  | WriterTick error "store_error option"
  | WriterStop
  | WaitReturn

definition at_collector :: "nat \<Rightarrow> goroutine \<Rightarrow> sys \<Rightarrow> bool" where
  "at_collector i g s = (i < length (collectors s) \<and> snd (collectors s ! i) = g)"

definition sending :: "nat \<Rightarrow> sys \<Rightarrow> bool" where
  "sending i s =
     (i < length (collectors s) \<and>
      (case snd (collectors s ! i) of InSend ts \<Rightarrow> True | _ \<Rightarrow> False))"

text \<open>
  When a step can be taken: a goroutine leaves its \<open>select\<close> by the \<open>stop\<close> case
  only when the channel is closed (nothing is ever sent on it), \<open>RemoteWrite\<close>
  receives only from a collector that is blocked in its send, and \<open>wg.Wait()\<close> returns
  only at counter zero.
\<close>

fun enabled :: "event \<Rightarrow> sys \<Rightarrow> bool" where
  "enabled (CollectorStart i) s = at_collector i NotStarted s"
| "enabled (CollectorTick i r err now) s = at_collector i InSelect s"
| "enabled (CollectorStop i) s = (at_collector i InSelect s \<and> stop_closed s)"
| "enabled (WriterStart client_err) s = (writer s = NotStarted)"
| "enabled (WriterMetrics i) s = (writer s = InSelect \<and> sending i s)"
| "enabled (WriterTick marshal_err store_err) s = (writer s = InSelect)"
| "enabled WriterStop s = (writer s = InSelect \<and> stop_closed s)"
| "enabled WaitReturn s = (wg s = 0)"

fun fire :: "(string \<Rightarrow> error) \<Rightarrow> Config \<Rightarrow> event \<Rightarrow> sys \<Rightarrow> sys" where
  "fire url_Parse conf (CollectorStart i) s = CollectEnergyUsage_start i (Interval conf) s"
| "fire url_Parse conf (CollectorTick i r err now) s =
     CollectEnergyUsage_tick i (fst (collectors s ! i)) r err now s"
| "fire url_Parse conf (CollectorStop i) s = CollectEnergyUsage_stop i s"
| "fire url_Parse conf (WriterStart client_err) s = RemoteWrite_start url_Parse conf client_err s"
| "fire url_Parse conf (WriterMetrics i) s = RemoteWrite_metrics i s"
| "fire url_Parse conf (WriterTick marshal_err store_err) s =
     RemoteWrite_tick marshal_err store_err s"
| "fire url_Parse conf WriterStop s = RemoteWrite_stop s"
| "fire url_Parse conf WaitReturn s = main_returns s"

definition step :: "(string \<Rightarrow> error) \<Rightarrow> Config \<Rightarrow> event \<Rightarrow> sys \<Rightarrow> sys" where
  "step url_Parse conf e s =
     (if proc s = Running \<and> enabled e s then fire url_Parse conf e s else s)"

definition run :: "(string \<Rightarrow> error) \<Rightarrow> Config \<Rightarrow> event list \<Rightarrow> sys \<Rightarrow> sys" where
  "run url_Parse conf es s = fold (step url_Parse conf) es s"

text \<open>
  The state after the first \<open>k\<close> events of an endless schedule of events.
\<close>

definition state_at ::
    "(string \<Rightarrow> error) \<Rightarrow> Config \<Rightarrow> (nat \<Rightarrow> event) \<Rightarrow> sys \<Rightarrow> nat \<Rightarrow> sys" where
  "state_at url_Parse conf sched s k = run url_Parse conf (map sched [0..<k]) s"

text \<open>What the trace says was sent, handed to the sink, and accepted by it.\<close>

fun sent :: "action list \<Rightarrow> TimeSeries list" where
  "sent [] = []"
| "sent (Send i ts # as) = ts # sent as"
| "sent (a # as) = sent as"

fun stored :: "action list \<Rightarrow> TimeSeries list list" where
  "stored [] = []"
| "stored (Store b e # as) = b # stored as"
| "stored (a # as) = stored as"

fun accepted :: "action list \<Rightarrow> TimeSeries list list" where
  "accepted [] = []"
| "accepted (Store b None # as) = b # accepted as"
| "accepted (a # as) = accepted as"

fun connected :: "action list \<Rightarrow> Device list" where
  "connected [] = []"
| "connected (Connect d # as) = d # connected as"
| "connected (a # as) = connected as"

fun spawned :: "action list \<Rightarrow> task list" where
  "spawned [] = []"
| "spawned (Go t # as) = t # spawned as"
| "spawned (a # as) = spawned as"

fun logged :: "action list \<Rightarrow> (Level \<times> string) list" where
  "logged [] = []"
| "logged (Log l m # as) = (l, m) # logged as"
| "logged (a # as) = logged as"

text \<open>The samples that collectors are still blocked sending.\<close>

fun pending :: "goroutine \<Rightarrow> TimeSeries list" where
  "pending (InSend ts) = [ts]"
| "pending g = []"

definition in_flight :: "(Device \<times> goroutine) list \<Rightarrow> TimeSeries list" where
  "in_flight gs = concat (map (\<lambda>g. pending (snd g)) gs)"

text \<open>
  Every \<open>go\<close> statement of a trace comes after a \<open>wg.Add(1)\<close> of its own: \<open>n\<close> counts
  the registrations that no \<open>go\<close> statement has used yet.
\<close>

fun registered_first :: "nat \<Rightarrow> action list \<Rightarrow> bool" where
  "registered_first n [] = True"
| "registered_first n (WgAdd # as) = registered_first (Suc n) as"
| "registered_first n (Go t # as) = (0 < n \<and> registered_first (n - 1) as)"
| "registered_first n (a # as) = registered_first n as"


text \<open>A run without send errors: every flush tick marshals and stores without error.\<close>

fun healthy :: "event list \<Rightarrow> bool" where
  "healthy [] = True"
| "healthy (WriterTick marshal_err store_err # es) =
     (marshal_err = None \<and> store_err = None \<and> healthy es)"
| "healthy (e # es) = healthy es"

text \<open>The steps that are a flush tick of \<open>RemoteWrite\<close>.\<close>

fun is_flush :: "event \<Rightarrow> bool" where
  "is_flush (WriterTick marshal_err store_err) = True"
| "is_flush e = False"

text \<open>
  Every sample sent on \<open>metrics\<close> is in one place: in a batch the sink accepted, in
  the batch of \<open>RemoteWrite\<close>, or in the blocked send of its collector.
\<close>

definition accounted :: "sys \<Rightarrow> bool" where
  "accounted s =
     (mset (sent (trace s)) =
      mset (concat (accepted (trace s))) + mset (tss s) + mset (in_flight (collectors s)))"

text \<open>
  How many times a sample has been handed to the sink, how many times the sink has
  accepted it, and how many times it is in the batch.
\<close>

definition transmitted :: "TimeSeries \<Rightarrow> sys \<Rightarrow> nat" where
  "transmitted ts s = count (mset (concat (stored (trace s)))) ts"

definition delivered :: "TimeSeries \<Rightarrow> sys \<Rightarrow> nat" where
  "delivered ts s = count (mset (concat (accepted (trace s)))) ts"

definition batched :: "TimeSeries \<Rightarrow> sys \<Rightarrow> nat" where
  "batched ts s = count (mset (tss s)) ts"

text \<open>
  The invariant of the running daemon: the \<open>stop\<close> channel is open, no task has
  returned, and the WaitGroup counter is the number of tasks.
\<close>

definition quiet :: "sys \<Rightarrow> bool" where
  "quiet s =
     (\<not> stop_closed s \<and> wg s = int (length (collectors s)) + 1 \<and>
      (writer s = NotStarted \<or> writer s = InSelect) \<and>
      (\<forall>i<length (collectors s). snd (collectors s ! i) \<noteq> Returned))"

text \<open>The traces of the two loops of \<open>RunE\<close>.\<close>

definition connect_trace :: "Device list \<Rightarrow> action list" where
  "connect_trace ds =
     concat (map (\<lambda>d. [Connect d, Log InfoLevel ''connected to device %s'']) ds)"

definition spawn_trace :: "nat \<Rightarrow> nat \<Rightarrow> action list" where
  "spawn_trace k n =
     concat (map (\<lambda>i. [WgAdd, Log InfoLevel ''starting CollectEnergyUsage for %s'',
                        Go (Collector i)]) [k..<k + n])"

section \<open>A configuration with one plug, and states of its daemon\<close>

definition dev1 :: Device where
  "dev1 = \<lparr>Ip = ''192.168.1.69'', Username = ''user@domain.tld'', Password = ''thepassword''\<rparr>"

definition conf1 :: Config where
  "conf1 = \<lparr>Interval = 60, Devices = [dev1],
     Prometheus = \<lparr>Endpoint = ''https://endpoint/api/prom/push'', PromUsername = ''user'',
       PromPassword = ''pass'', FlushInterval = 60\<rparr>\<rparr>"

text \<open>
  What \<open>url.Parse\<close> answers on the endpoints of the examples: it accepts the endpoint
  of the README, the empty string and an address without scheme, and it rejects a
  string that starts with a colon ("missing protocol scheme"). Only these four strings
  are looked up below.
\<close>

definition url_Parse1 :: "string \<Rightarrow> error" where
  "url_Parse1 u =
     (if u = ''://endpoint/api/prom/push'' then Some ''missing protocol scheme'' else None)"

text \<open>A response of the plug with error code 0 and a reading.\<close>

definition reading :: "float64 \<Rightarrow> gomap" where
  "reading v =
     [(''error_code'', JFloat64 0), (''result'', JMap [(''current_power'', JFloat64 v)])]"


text \<open>The daemon after both goroutines have made their tickers.\<close>

definition started :: sys where
  "started = run url_Parse1 conf1 [CollectorStart 0, WriterStart None] (RunE (\<lambda>d. None) conf1)"

text \<open>The same after one reading of 10 at time 1000 has reached the batch.\<close>

definition loaded :: sys where
  "loaded = run url_Parse1 conf1 [CollectorTick 0 (reading 10) None 1000, WriterMetrics 0] started"

text \<open>
  The loaded daemon after a second reading, of 12 at time 2000, which the collector is
  blocked sending.
\<close>

definition pushing :: sys where
  "pushing = run url_Parse1 conf1 [CollectorTick 0 (reading 12) None 2000] loaded"



definition conf_colon :: Config where
  "conf_colon =
     conf1\<lparr>Prometheus := (Prometheus conf1)\<lparr>Endpoint := ''://endpoint/api/prom/push''\<rparr>\<rparr>"

text \<open>
  An endless schedule for the daemon of the example: both goroutines make their
  tickers, the collector polls once (a reading of 10 at time 1000), and from then on
  \<open>RemoteWrite\<close> takes its receive and its flush tick in turn, the sink accepting
  every batch.
\<close>

definition sched1 :: "nat \<Rightarrow> event" where
  "sched1 k =
     (if k = 0 then CollectorStart 0
      else if k = 1 then WriterStart None
      else if k = 2 then CollectorTick 0 (reading 10) None 1000
      else if odd k then WriterMetrics 0
      else WriterTick None None)"

section \<open>Statements, blocks and runs\<close>

lemmas stmt_defs = stmt_def emit_def log_def log_Fatal_def os_Exit_def panic_def CheckErr_def
  close_stop_def wg_Add_def wg_Done_def set_collector_def set_writer_def

lemmas prog_defs = CollectEnergyUsage_start_def CollectEnergyUsage_stop_def
  CollectEnergyUsage_tick_def RemoteWrite_start_def RemoteWrite_stop_def
  RemoteWrite_metrics_def RemoteWrite_tick_def receive_def main_returns_def

lemma block_halted: "proc s \<noteq> Running \<Longrightarrow> block fs s = s"
  by (induction fs arbitrary: s) (simp_all add: stmt_def)

lemma step_halted: "proc s \<noteq> Running \<Longrightarrow> step url_Parse conf e s = s"
  by (simp add: step_def)

lemma run_halted: "proc s \<noteq> Running \<Longrightarrow> run url_Parse conf es s = s"
  by (induction es) (simp_all add: run_def step_halted)

lemma run_Nil: "run url_Parse conf [] s = s"
  by (simp add: run_def)

lemma run_Cons: "run url_Parse conf (e # es) s = run url_Parse conf es (step url_Parse conf e s)"
  by (simp add: run_def)

lemma run_append: "run url_Parse conf (es @ es') s = run url_Parse conf es' (run url_Parse conf es s)"
  by (simp add: run_def)

lemma sent_append: "sent (xs @ ys) = sent xs @ sent ys"
  by (induction xs rule: sent.induct) simp_all

lemma stored_append: "stored (xs @ ys) = stored xs @ stored ys"
  by (induction xs rule: stored.induct) simp_all

lemma accepted_append: "accepted (xs @ ys) = accepted xs @ accepted ys"
  by (induction xs rule: accepted.induct) simp_all

lemma logged_append: "logged (xs @ ys) = logged xs @ logged ys"
  by (induction xs rule: logged.induct) simp_all


lemma spawned_append: "spawned (xs @ ys) = spawned xs @ spawned ys"
  by (induction xs rule: spawned.induct) simp_all

section \<open>The states of the example\<close>


lemma started_eq:
  "started = \<lparr>proc = Running, stop_closed = False, wg = 2, cs = [dev1],
     collectors = [(dev1, InSelect)], writer = InSelect, tss = [],
     trace = [Connect dev1, Log InfoLevel ''connected to device %s'', WgAdd,
       Log InfoLevel ''starting CollectEnergyUsage for %s'', Go (Collector 0),
       Log InfoLevel ''starting RemoteWriter'', WgAdd, Go Writer]\<rparr>"
  by (simp add: started_def run_def step_def RunE_def conf1_def init_def connect_def
      start_collector_def at_collector_def NewTicker_ok_def seconds_def prog_defs stmt_defs
      url_Parse1_def)

lemma loaded_eq:
  "loaded = started\<lparr>tss := [timeseries dev1 10 1000],
     trace := trace started @
       [Send 0 (timeseries dev1 10 1000), Log DebugLevel ''received time-series'']\<rparr>"
  by (simp add: loaded_def started_eq run_def step_def at_collector_def sending_def prog_defs
      stmt_defs reading_def index_def current_power_def assert_map_def assert_float64_def)

lemma pushing_eq:
  "pushing = loaded\<lparr>collectors := [(dev1, InSend (timeseries dev1 12 2000))],
     trace := trace loaded @ [Send 0 (timeseries dev1 12 2000)]\<rparr>"
  by (simp add: pushing_def loaded_eq started_eq run_def step_def at_collector_def prog_defs
      stmt_defs reading_def index_def current_power_def assert_map_def assert_float64_def)

section \<open>The flush tick of RemoteWrite\<close>

lemma tick_empty:
  "proc s = Running \<Longrightarrow> tss s = [] \<Longrightarrow>
   RemoteWrite_tick marshal_err store_err s =
     s\<lparr>trace := trace s @
       [Log DebugLevel ''performing batched remote write for %d timeseries'']\<rparr>"
  by (simp add: RemoteWrite_tick_def stmt_defs)

lemma tick_ok:
  "proc s = Running \<Longrightarrow> tss s \<noteq> [] \<Longrightarrow>
   RemoteWrite_tick None None s =
     s\<lparr>tss := [], trace := trace s @
       [Log DebugLevel ''performing batched remote write for %d timeseries'',
        Store (tss s) None, Log InfoLevel ''pushed %d timeseries'']\<rparr>"
  by (simp add: RemoteWrite_tick_def stmt_defs)

lemma tick_recoverable:
  "proc s = Running \<Longrightarrow> tss s \<noteq> [] \<Longrightarrow>
   RemoteWrite_tick None (Some (RecoverableError e)) s =
     s\<lparr>trace := trace s @
       [Log DebugLevel ''performing batched remote write for %d timeseries'',
        Store (tss s) (Some (RecoverableError e)), Log InfoLevel ''recoverable error %s'']\<rparr>"
  by (simp add: RemoteWrite_tick_def stmt_defs)

lemma tick_other:
  "proc s = Running \<Longrightarrow> tss s \<noteq> [] \<Longrightarrow>
   RemoteWrite_tick None (Some (OtherError e)) s =
     s\<lparr>proc := Exited 1, trace := trace s @
       [Log DebugLevel ''performing batched remote write for %d timeseries'',
        Store (tss s) (Some (OtherError e)),
        Log FatalLevel ''error pushing timeseries: %s'']\<rparr>"
  by (simp add: RemoteWrite_tick_def stmt_defs)

lemma tick_marshal:
  "proc s = Running \<Longrightarrow> tss s \<noteq> [] \<Longrightarrow>
   RemoteWrite_tick (Some m) store_err s =
     s\<lparr>proc := Exited 1, trace := trace s @
       [Log DebugLevel ''performing batched remote write for %d timeseries'',
        Log FatalLevel ''unable to marshal protobuf: %v'']\<rparr>"
  by (simp add: RemoteWrite_tick_def stmt_defs)

lemma fold_receive:
  "proc s = Running \<Longrightarrow>
   fold receive xs s =
     s\<lparr>tss := tss s @ xs,
       trace := trace s @ replicate (length xs) (Log DebugLevel ''received time-series'')\<rparr>"
proof (induction xs arbitrary: s)
  case Nil
  then show ?case by simp
next
  case (Cons x xs)
  have "proc (receive x s) = Running"
    using Cons.prems by (simp add: receive_def stmt_defs)
  from Cons.IH [OF this] show ?case
    using Cons.prems by (simp add: receive_def stmt_defs replicate_append_same)
qed

text \<open>
  C8. At a flush tick that finds the batch empty, \<open>RemoteWrite\<close> writes its debug
  line and goes back to the \<open>select\<close>: the state after the tick is the state before
  it with that one log call added, whatever marshalling or the sink would have
  answered. Nothing is marshalled or stored, nothing is logged above debug level, the
  batch, the process, the channels and the counter are as they were.
\<close>

theorem RemoteWrite_tick_empty_batch:
  "proc s = Running \<Longrightarrow> tss s = [] \<Longrightarrow>
   RemoteWrite_tick marshal_err store_err s =
     s\<lparr>trace := trace s @
       [Log DebugLevel ''performing batched remote write for %d timeseries'']\<rparr> \<and>
   stored (trace (RemoteWrite_tick marshal_err store_err s)) = stored (trace s)"
  by (simp add: tick_empty stored_append)

theorem RemoteWrite_tick_empty_batch_witness:
  "proc started = Running \<and> tss started = [] \<and>
   RemoteWrite_tick (Some ''marshal'') (Some (OtherError ''400'')) started =
     started\<lparr>trace := trace started @
       [Log DebugLevel ''performing batched remote write for %d timeseries'']\<rparr> \<and>
   stored (trace (RemoteWrite_tick (Some ''marshal'') (Some (OtherError ''400'')) started)) = []"
  using RemoteWrite_tick_empty_batch [of started "Some ''marshal''" "Some (OtherError ''400'')"]
  by (simp add: started_eq)

text \<open>
  C1, as stated, fails. The daemon of the example has one sample in its batch when
  the sink answers a flush with a recoverable error: after that tick the batch still
  holds the sample, and the next flush tick hands the same sample to the sink again.
  The \<open>continue\<close> of line 182 skips the assignment of line 189.
\<close>

theorem RemoteWrite_recoverable_batch_resent:
  "tss (run url_Parse1 conf1 [WriterTick None (Some (RecoverableError ''429''))] loaded) =
     [timeseries dev1 10 1000] \<and>
   stored (trace (run url_Parse1 conf1 [WriterTick None (Some (RecoverableError ''429'')),
                             WriterTick None None] loaded)) =
     [[timeseries dev1 10 1000], [timeseries dev1 10 1000]]"
  by (simp add: loaded_eq started_eq run_def step_def prog_defs stmt_defs)

lemma tick_stores:
  assumes "proc s = Running" and "tss s \<noteq> []"
  shows "stored (trace (RemoteWrite_tick None store_err s)) = stored (trace s) @ [tss s]"
proof (cases store_err)
  case None
  then show ?thesis by (simp add: tick_ok [OF assms] stored_append)
next
  case (Some err)
  then show ?thesis
    by (cases err)
      (simp_all add: tick_recoverable [OF assms] tick_other [OF assms] stored_append)
qed

text \<open>
  C1, amended. At a flush tick with a batch that is not empty and a recoverable error
  of the sink, \<open>RemoteWrite\<close> logs the error at info level and goes back to the
  \<open>select\<close> with the batch as it was: the process runs on and nothing is dropped. At
  the next flush tick whose marshalling succeeds, the samples of that batch are handed
  to the sink again, ahead of the samples \<open>xs\<close> received in between, whatever the sink
  answers then.
\<close>

theorem RemoteWrite_tick_recoverable_keeps_batch:
  assumes "proc s = Running" and "tss s \<noteq> []"
  shows "RemoteWrite_tick None (Some (RecoverableError e)) s =
           s\<lparr>trace := trace s @
             [Log DebugLevel ''performing batched remote write for %d timeseries'',
              Store (tss s) (Some (RecoverableError e)),
              Log InfoLevel ''recoverable error %s'']\<rparr> \<and>
         stored (trace (RemoteWrite_tick None store_err
           (fold receive xs (RemoteWrite_tick None (Some (RecoverableError e)) s)))) =
         stored (trace s) @ [tss s, tss s @ xs]"
proof -
  let ?s1 = "RemoteWrite_tick None (Some (RecoverableError e)) s"
  have 1: "?s1 = s\<lparr>trace := trace s @
             [Log DebugLevel ''performing batched remote write for %d timeseries'',
              Store (tss s) (Some (RecoverableError e)),
              Log InfoLevel ''recoverable error %s'']\<rparr>"
    using assms by (rule tick_recoverable)
  have r1: "proc ?s1 = Running"
    using assms by (simp add: 1)
  let ?s2 = "fold receive xs ?s1"
  have 2: "?s2 = ?s1\<lparr>tss := tss ?s1 @ xs,
       trace := trace ?s1 @ replicate (length xs) (Log DebugLevel ''received time-series'')\<rparr>"
    using r1 by (rule fold_receive)
  have r2: "proc ?s2 = Running" and t2: "tss ?s2 = tss s @ xs"
    using r1 by (simp_all add: 2) (simp add: 1)
  have n2: "tss ?s2 \<noteq> []"
    using assms(2) by (simp add: t2)
  have st2: "stored (trace ?s2) = stored (trace s) @ [tss s]"
  proof -
    have "stored (replicate n (Log DebugLevel ''received time-series'')) = []" for n
      by (induction n) simp_all
    then show ?thesis
      by (simp add: 2 stored_append) (simp add: 1 stored_append)
  qed
  have "stored (trace (RemoteWrite_tick None store_err ?s2)) =
      stored (trace s) @ [tss s, tss s @ xs]"
    by (simp add: tick_stores [OF r2 n2] st2 t2)
  with 1 show ?thesis by simp
qed

theorem RemoteWrite_tick_recoverable_keeps_batch_witness:
  "proc loaded = Running \<and> tss loaded \<noteq> [] \<and>
   tss (RemoteWrite_tick None (Some (RecoverableError ''429'')) loaded) = tss loaded \<and>
   stored (trace (RemoteWrite_tick None (Some (RecoverableError ''429''))
      (fold receive [timeseries dev1 12 2000]
        (RemoteWrite_tick None (Some (RecoverableError ''429'')) loaded)))) =
     [[timeseries dev1 10 1000], [timeseries dev1 10 1000, timeseries dev1 12 2000]]"
  using RemoteWrite_tick_recoverable_keeps_batch
    [of loaded "''429''" "Some (RecoverableError ''429'')" "[timeseries dev1 12 2000]"]
  by (simp add: loaded_eq started_eq prog_defs stmt_defs)

text \<open>
  C3: what the code does where the claim is about. In the daemon of the example the
  sink answers a flush with an error that is not recoverable (a 400). The ticker case
  is written \<open>log.Fatalf; close(stop); continue\<close> (lines 184-186, and the same for a
  marshal error at lines 174-176), but the fatal log call of logrus ends the process
  with status 1 before \<open>close(stop)\<close> runs: in the state the process ends in, the
  \<open>stop\<close> channel is still open, the WaitGroup counter is still 2, both tasks are
  where they were, in their \<open>select\<close>, and no \<open>wg.Done()\<close> is in the trace. There
  was no cooperative wind-down.
\<close>

theorem RemoteWrite_fatal_no_wind_down:
  "run url_Parse1 conf1 [WriterTick None (Some (OtherError ''400''))] loaded =
     \<lparr>proc = Exited 1, stop_closed = False, wg = 2, cs = [dev1],
      collectors = [(dev1, InSelect)], writer = InSelect, tss = [timeseries dev1 10 1000],
      trace = [Connect dev1, Log InfoLevel ''connected to device %s'', WgAdd,
        Log InfoLevel ''starting CollectEnergyUsage for %s'', Go (Collector 0),
        Log InfoLevel ''starting RemoteWriter'', WgAdd, Go Writer,
        Send 0 (timeseries dev1 10 1000), Log DebugLevel ''received time-series'',
        Log DebugLevel ''performing batched remote write for %d timeseries'',
        Store [timeseries dev1 10 1000] (Some (OtherError ''400'')),
        Log FatalLevel ''error pushing timeseries: %s'']\<rparr>"
  by (simp add: loaded_eq started_eq run_def step_def prog_defs stmt_defs)

text \<open>
  C4, as stated, fails. In the daemon of the example the first flush tick has a
  recoverable error; between that tick and the next one exactly one sample, the reading
  of 12 at time 2000, is accumulated. The second flush succeeds and transmits two
  samples: the one kept from before the first tick and the new one.
\<close>

theorem RemoteWrite_batch_holds_kept_samples:
  "stored (trace (run url_Parse1 conf1 [WriterTick None (Some (RecoverableError ''429'')),
       CollectorTick 0 (reading 12) None 2000, WriterMetrics 0,
       WriterTick None None] loaded)) =
     [[timeseries dev1 10 1000], [timeseries dev1 10 1000, timeseries dev1 12 2000]]"
  by (simp add: loaded_eq started_eq run_def step_def at_collector_def sending_def prog_defs
      stmt_defs reading_def index_def current_power_def assert_map_def assert_float64_def)

text \<open>
  C4, amended. Let \<open>s\<close> be the state a flush tick leaves and \<open>xs\<close> the samples
  received after it, in order. The next flush tick on which marshalling and the sink
  succeed hands one batch to the sink: the samples the earlier tick left in the batch
  followed by \<open>xs\<close> in the order received (exactly \<open>xs\<close> when the earlier tick left the
  batch empty), and immediately afterwards the batch is empty.
\<close>

theorem RemoteWrite_tick_success_sends_batch:
  assumes "proc s = Running" and "tss s @ xs \<noteq> []"
  shows "RemoteWrite_tick None None (fold receive xs s) =
           (fold receive xs s)\<lparr>tss := [], trace := trace (fold receive xs s) @
             [Log DebugLevel ''performing batched remote write for %d timeseries'',
              Store (tss s @ xs) None, Log InfoLevel ''pushed %d timeseries'']\<rparr>"
proof -
  let ?s1 = "fold receive xs s"
  have 1: "?s1 = s\<lparr>tss := tss s @ xs,
       trace := trace s @ replicate (length xs) (Log DebugLevel ''received time-series'')\<rparr>"
    using assms(1) by (rule fold_receive)
  have r: "proc ?s1 = Running" and t: "tss ?s1 = tss s @ xs"
    using assms(1) by (simp_all add: 1)
  have n: "tss ?s1 \<noteq> []"
    using assms(2) by (simp add: t)
  show ?thesis
    using tick_ok [OF r n] by (simp only: t)
qed

theorem RemoteWrite_tick_success_sends_batch_witness:
  "proc started = Running \<and> tss started = [] \<and>
   stored (trace (RemoteWrite_tick None None
      (fold receive [timeseries dev1 10 1000, timeseries dev1 12 2000] started))) =
     [[timeseries dev1 10 1000, timeseries dev1 12 2000]] \<and>
   tss (RemoteWrite_tick None None
      (fold receive [timeseries dev1 10 1000, timeseries dev1 12 2000] started)) = []"
  using RemoteWrite_tick_success_sends_batch
    [of started "[timeseries dev1 10 1000, timeseries dev1 12 2000]"]
  by (simp add: started_eq prog_defs stmt_defs)

section \<open>The start-up of the daemon\<close>

lemma connect_halted: "proc s \<noteq> Running \<Longrightarrow> connect NewTapo d s = s"
  unfolding connect_def by (rule block_halted)

lemma fold_connect_halted: "proc s \<noteq> Running \<Longrightarrow> fold (connect NewTapo) ds s = s"
  by (induction ds arbitrary: s) (simp_all add: connect_halted)

lemma fold_connect_ok:
  "proc s = Running \<Longrightarrow> \<forall>d\<in>set ds. NewTapo d = None \<Longrightarrow>
   fold (connect NewTapo) ds s = s\<lparr>cs := cs s @ ds, trace := trace s @ connect_trace ds\<rparr>"
proof (induction ds arbitrary: s)
  case Nil
  then show ?case by (simp add: connect_trace_def)
next
  case (Cons d ds)
  let ?s1 = "connect NewTapo d s"
  have s1: "?s1 = s\<lparr>cs := cs s @ [d],
      trace := trace s @ [Connect d, Log InfoLevel ''connected to device %s'']\<rparr>"
    using Cons.prems by (simp add: connect_def stmt_defs)
  then have "proc ?s1 = Running"
    using Cons.prems by simp
  from Cons.IH [OF this] Cons.prems(2)
  have "fold (connect NewTapo) ds ?s1 =
      ?s1\<lparr>cs := cs ?s1 @ ds, trace := trace ?s1 @ connect_trace ds\<rparr>"
    by simp
  then show ?case by (simp add: s1 connect_trace_def)
qed

lemma fold_connect_fail:
  assumes "proc s = Running" and "\<forall>d\<in>set ok. NewTapo d = None" and "NewTapo bad \<noteq> None"
  shows "fold (connect NewTapo) (ok @ bad # rest) s =
     s\<lparr>proc := Exited 1, cs := cs s @ ok, trace := trace s @ connect_trace ok @ [Connect bad]\<rparr>"
proof -
  let ?s1 = "s\<lparr>cs := cs s @ ok, trace := trace s @ connect_trace ok\<rparr>"
  have 1: "fold (connect NewTapo) ok s = ?s1"
    using fold_connect_ok [OF assms(1,2)] .
  have 2: "connect NewTapo bad ?s1 = ?s1\<lparr>proc := Exited 1, trace := trace ?s1 @ [Connect bad]\<rparr>"
    using assms by (simp add: connect_def stmt_defs)
  have "fold (connect NewTapo) (ok @ bad # rest) s =
      fold (connect NewTapo) rest (connect NewTapo bad ?s1)"
    by (simp add: 1)
  also have "\<dots> = connect NewTapo bad ?s1"
    by (rule fold_connect_halted) (simp add: 2)
  finally show ?thesis by (simp add: 2)
qed

lemma spawn_trace_Suc:
  "spawn_trace k (Suc n) =
     [WgAdd, Log InfoLevel ''starting CollectEnergyUsage for %s'', Go (Collector k)] @
     spawn_trace (Suc k) n"
  by (simp add: spawn_trace_def upt_rec [of k])

lemma fold_start_collector:
  "proc s = Running \<Longrightarrow>
   fold start_collector ds s =
     s\<lparr>wg := wg s + int (length ds),
       collectors := collectors s @ map (\<lambda>d. (d, NotStarted)) ds,
       trace := trace s @ spawn_trace (length (collectors s)) (length ds)\<rparr>"
proof (induction ds arbitrary: s)
  case Nil
  then show ?case by (simp add: spawn_trace_def)
next
  case (Cons d ds)
  let ?s1 = "start_collector d s"
  have s1: "?s1 = s\<lparr>wg := wg s + 1, collectors := collectors s @ [(d, NotStarted)],
      trace := trace s @ [WgAdd, Log InfoLevel ''starting CollectEnergyUsage for %s'',
        Go (Collector (length (collectors s)))]\<rparr>"
    using Cons.prems by (simp add: start_collector_def stmt_defs)
  then have "proc ?s1 = Running"
    using Cons.prems by simp
  from Cons.IH [OF this] show ?case
    by (simp add: s1 spawn_trace_Suc)
qed

lemma RunE_connect:
  "Devices conf \<noteq> [] \<Longrightarrow>
   RunE NewTapo conf =
     block [(\<lambda>s. fold start_collector (cs s) s), log InfoLevel ''starting RemoteWriter'',
            wg_Add, emit (Go Writer)] (fold (connect NewTapo) (Devices conf) init)"
  by (simp add: RunE_def stmt_def init_def)

lemma RunE_ok:
  assumes "Devices conf \<noteq> []" and "\<forall>d\<in>set (Devices conf). NewTapo d = None"
  shows "RunE NewTapo conf =
     \<lparr>proc = Running, stop_closed = False, wg = int (length (Devices conf)) + 1,
      cs = Devices conf, collectors = map (\<lambda>d. (d, NotStarted)) (Devices conf),
      writer = NotStarted, tss = [],
      trace = connect_trace (Devices conf) @ spawn_trace 0 (length (Devices conf)) @
        [Log InfoLevel ''starting RemoteWriter'', WgAdd, Go Writer]\<rparr>"
proof -
  have 1: "fold (connect NewTapo) (Devices conf) init =
      init\<lparr>cs := Devices conf, trace := connect_trace (Devices conf)\<rparr>"
    using fold_connect_ok [of init "Devices conf" NewTapo] assms by (simp add: init_def)
  show ?thesis
    unfolding RunE_connect [OF assms(1)] 1
    by (simp add: stmt_def fold_start_collector) (simp add: init_def stmt_defs)
qed

lemma RunE_no_devices: "Devices conf = [] \<Longrightarrow> RunE NewTapo conf = init\<lparr>proc := Exited 1\<rparr>"
  by (simp add: RunE_def stmt_defs init_def)

lemma RunE_fail:
  assumes "Devices conf = ok @ bad # rest" and "\<forall>d\<in>set ok. NewTapo d = None"
    and "NewTapo bad \<noteq> None"
  shows "RunE NewTapo conf =
     init\<lparr>proc := Exited 1, cs := ok, trace := connect_trace ok @ [Connect bad]\<rparr>"
proof -
  have 1: "fold (connect NewTapo) (Devices conf) init =
      init\<lparr>proc := Exited 1, cs := ok, trace := connect_trace ok @ [Connect bad]\<rparr>"
    using fold_connect_fail [of init ok NewTapo bad rest] assms by (simp add: init_def)
  have ne: "Devices conf \<noteq> []"
    using assms(1) by simp
  show ?thesis
    unfolding RunE_connect [OF ne] 1 by (rule block_halted) simp
qed

lemma RunE_unreachable:
  assumes "d \<in> set (Devices conf)" and "NewTapo d \<noteq> None"
  shows "\<exists>ok bad rest. Devices conf = ok @ bad # rest \<and> NewTapo bad \<noteq> None \<and>
     RunE NewTapo conf =
       init\<lparr>proc := Exited 1, cs := ok, trace := connect_trace ok @ [Connect bad]\<rparr>"
proof -
  from assms have "\<exists>x\<in>set (Devices conf). NewTapo x \<noteq> None" by blast
  then obtain ok bad rest where sp: "Devices conf = ok @ bad # rest" "NewTapo bad \<noteq> None"
      "\<forall>y\<in>set ok. \<not> NewTapo y \<noteq> None"
    using split_list_first_prop [of "Devices conf" "\<lambda>x. NewTapo x \<noteq> None"] by blast
  from sp(3) have "\<forall>d\<in>set ok. NewTapo d = None" by simp
  from RunE_fail [OF sp(1) this sp(2)] sp(1,2) show ?thesis by blast
qed

lemma RunE_Running:
  assumes "proc (RunE NewTapo conf) = Running"
  shows "Devices conf \<noteq> [] \<and> (\<forall>d\<in>set (Devices conf). NewTapo d = None)"
proof -
  have "Devices conf \<noteq> []"
    using assms RunE_no_devices [of conf NewTapo] by auto
  moreover have "NewTapo d = None" if "d \<in> set (Devices conf)" for d
  proof (rule ccontr)
    assume "NewTapo d \<noteq> None"
    with that have "proc (RunE NewTapo conf) = Exited 1"
      using RunE_unreachable [of d conf NewTapo] by auto
    with assms show False by simp
  qed
  ultimately show ?thesis by blast
qed

section \<open>What every step keeps\<close>

lemma step_stop_open: "\<not> stop_closed s \<Longrightarrow> \<not> stop_closed (step url_Parse conf e s)"
  by (cases e)
    (auto simp: step_def prog_defs stmt_defs Let_def
      split: option.splits store_error.splits goroutine.splits)

lemma step_quiet: "quiet s \<Longrightarrow> quiet (step url_Parse conf e s)"
  by (cases e)
    (auto simp: quiet_def step_def prog_defs stmt_defs Let_def at_collector_def sending_def
      nth_list_update split: option.splits store_error.splits goroutine.splits)

lemma run_quiet: "quiet s \<Longrightarrow> quiet (run url_Parse conf es s)"
  by (induction es arbitrary: s) (simp_all add: run_Nil run_Cons step_quiet)

lemma map_fst_update: "i < length xs \<Longrightarrow> map fst (xs[i := (fst (xs ! i), g)]) = map fst xs"
  by (induction xs arbitrary: i) (auto split: nat.splits)

lemma step_devices: "map fst (collectors (step url_Parse conf e s)) = map fst (collectors s)"
  by (cases e)
    (auto simp: step_def prog_defs stmt_defs Let_def at_collector_def sending_def
      map_fst_update split: option.splits store_error.splits goroutine.splits)

lemma run_devices: "map fst (collectors (run url_Parse conf es s)) = map fst (collectors s)"
  by (induction es arbitrary: s) (simp_all add: run_Nil run_Cons step_devices)

lemma run_Running: "proc (run url_Parse conf es s) = Running \<Longrightarrow> proc s = Running"
  using run_halted [of s url_Parse conf es] by (cases "proc s = Running") simp_all

lemma reachable_devices:
  assumes "proc (run url_Parse conf es (RunE NewTapo conf)) = Running"
  shows "map fst (collectors (run url_Parse conf es (RunE NewTapo conf))) = Devices conf"
proof -
  have "proc (RunE NewTapo conf) = Running"
    using assms by (rule run_Running)
  then have "Devices conf \<noteq> []" and "\<forall>d\<in>set (Devices conf). NewTapo d = None"
    using RunE_Running by blast+
  then have "map fst (collectors (RunE NewTapo conf)) = Devices conf"
    by (simp add: RunE_ok comp_def)
  then show ?thesis by (simp add: run_devices)
qed

lemma reachable_quiet:
  assumes "proc (RunE NewTapo conf) = Running"
  shows "quiet (run url_Parse conf es (RunE NewTapo conf))"
proof -
  have "Devices conf \<noteq> []" and "\<forall>d\<in>set (Devices conf). NewTapo d = None"
    using assms RunE_Running by blast+
  then have "quiet (RunE NewTapo conf)"
    by (simp add: RunE_ok quiet_def)
  then show ?thesis by (rule run_quiet)
qed

section \<open>The ticker case of CollectEnergyUsage\<close>

lemma tick_sends:
  "proc s = Running \<Longrightarrow> current_power r = Some v \<Longrightarrow>
   CollectEnergyUsage_tick i c r err now s =
     s\<lparr>collectors := (collectors s)[i := (fst (collectors s ! i), InSend (timeseries c v now))],
       trace := trace s @
         (case err of None \<Rightarrow> [] | Some e \<Rightarrow> [Log WarnLevel e]) @
         (if index r ''error_code'' \<noteq> JFloat64 0
          then [Log WarnLevel ''non zero error code''] else []) @
         [Send i (timeseries c v now)]\<rparr>"
  by (simp add: CollectEnergyUsage_tick_def stmt_defs split: option.splits)

lemma tick_panics:
  "proc s = Running \<Longrightarrow> current_power r = None \<Longrightarrow>
   CollectEnergyUsage_tick i c r err now s =
     s\<lparr>proc := Exited 2,
       trace := trace s @
         (case err of None \<Rightarrow> [] | Some e \<Rightarrow> [Log WarnLevel e]) @
         (if index r ''error_code'' \<noteq> JFloat64 0
          then [Log WarnLevel ''non zero error code''] else [])\<rparr>"
  by (simp add: CollectEnergyUsage_tick_def stmt_defs split: option.splits)

text \<open>
  C9. In a daemon started from \<open>conf\<close>, let collector \<open>i\<close> wait in its \<open>select\<close> and let
  its tick find a successful poll: no error, error code 0, and a \<open>float64\<close> reading
  \<open>v\<close> under \<open>result.current_power\<close>. Then \<open>i\<close> is the index of a configured device,
  and the step sends exactly one time series: its labels are \<open>ip\<close> with the address
  of that device and \<open>__name__\<close> with \<open>current_power\<close>, its only sample has the value
  \<open>v\<close> and the timestamp \<open>now\<close>. Nothing else of the state changes and nothing is
  logged; the receive of \<open>RemoteWrite\<close> then appends that one time series to the batch
  and the collector is back in its \<open>select\<close>.
\<close>

theorem CollectEnergyUsage_successful_poll:
  assumes "s = run url_Parse conf es (RunE NewTapo conf)" and "proc s = Running"
    and "at_collector i InSelect s"
    and "index r ''error_code'' = JFloat64 0"
    and "index r ''result'' = JMap m" and "index m ''current_power'' = JFloat64 v"
    and "ts = \<lparr>Labels = [\<lparr>Name = ''ip'', Value = Ip (Devices conf ! i)\<rparr>,
                          \<lparr>Name = ''__name__'', Value = ''current_power''\<rparr>],
               Samples = [\<lparr>Timestamp = now, Sample_Value = v\<rparr>]\<rparr>"
    and "s' = step url_Parse conf (CollectorTick i r None now) s"
  shows "i < length (Devices conf) \<and>
         s' = s\<lparr>collectors := (collectors s)[i := (Devices conf ! i, InSend ts)],
                trace := trace s @ [Send i ts]\<rparr> \<and>
         (writer s = InSelect \<longrightarrow>
            step url_Parse conf (WriterMetrics i) s' =
              s\<lparr>tss := tss s @ [ts],
                trace := trace s @ [Send i ts, Log DebugLevel ''received time-series'']\<rparr>)"
proof -
  have dv: "map fst (collectors s) = Devices conf"
    using assms(1,2) reachable_devices by simp
  have i: "i < length (collectors s)" and g: "snd (collectors s ! i) = InSelect"
    using assms(3) by (simp_all add: at_collector_def)
  have len: "length (collectors s) = length (Devices conf)"
    using dv by (metis length_map)
  have d: "fst (collectors s ! i) = Devices conf ! i"
    using dv i by (metis nth_map)
  have cp: "current_power r = Some v"
    using assms(5,6) by (simp add: current_power_def assert_map_def assert_float64_def)
  have tsd: "timeseries (Devices conf ! i) v now = ts"
    by (simp add: timeseries_def assms(7))
  have 1: "s' = s\<lparr>collectors := (collectors s)[i := (Devices conf ! i, InSend ts)],
                  trace := trace s @ [Send i ts]\<rparr>"
    using assms(2,3,4) tick_sends [OF assms(2) cp, of i "Devices conf ! i" None now]
    by (simp add: assms(8) step_def d tsd)
  have 2: "step url_Parse conf (WriterMetrics i) s' =
      s\<lparr>tss := tss s @ [ts],
        trace := trace s @ [Send i ts, Log DebugLevel ''received time-series'']\<rparr>"
    if "writer s = InSelect"
  proof -
    have "(collectors s)[i := (Devices conf ! i, InSelect)] = collectors s"
      using i g d by (metis list_update_id prod.collapse)
    then show ?thesis
      using that assms(2) i
      by (simp add: 1 step_def sending_def RemoteWrite_metrics_def receive_def stmt_defs)
  qed
  from i len 1 2 show ?thesis by simp
qed

theorem CollectEnergyUsage_successful_poll_witness:
  "started = run url_Parse1 conf1 [CollectorStart 0, WriterStart None] (RunE (\<lambda>d. None) conf1) \<and>
   proc started = Running \<and> at_collector 0 InSelect started \<and>
   index (reading 10) ''error_code'' = JFloat64 0 \<and>
   index (reading 10) ''result'' = JMap [(''current_power'', JFloat64 10)] \<and>
   index [(''current_power'', JFloat64 10)] ''current_power'' = JFloat64 10 \<and>
   step url_Parse1 conf1 (CollectorTick 0 (reading 10) None 1000) started =
     started\<lparr>collectors := [(dev1, InSend
         \<lparr>Labels = [\<lparr>Name = ''ip'', Value = ''192.168.1.69''\<rparr>,
                    \<lparr>Name = ''__name__'', Value = ''current_power''\<rparr>],
          Samples = [\<lparr>Timestamp = 1000, Sample_Value = 10\<rparr>]\<rparr>)],
       trace := trace started @ [Send 0
         \<lparr>Labels = [\<lparr>Name = ''ip'', Value = ''192.168.1.69''\<rparr>,
                    \<lparr>Name = ''__name__'', Value = ''current_power''\<rparr>],
          Samples = [\<lparr>Timestamp = 1000, Sample_Value = 10\<rparr>]\<rparr>]\<rparr>"
proof -
  have h1: "started = run url_Parse1 conf1 [CollectorStart 0, WriterStart None] (RunE (\<lambda>d. None) conf1)"
    by (simp add: started_def)
  have h2: "proc started = Running" and h3: "at_collector 0 InSelect started"
    by (simp_all add: started_eq at_collector_def)
  have h4: "index (reading 10) ''error_code'' = JFloat64 0"
    and h5: "index (reading 10) ''result'' = JMap [(''current_power'', JFloat64 10)]"
    and h6: "index [(''current_power'', JFloat64 10)] ''current_power'' = JFloat64 10"
    by (simp_all add: reading_def index_def)
  from CollectEnergyUsage_successful_poll [OF h1 h2 h3 h4 h5 h6 refl refl, of 1000]
  have "step url_Parse1 conf1 (CollectorTick 0 (reading 10) None 1000) started =
     started\<lparr>collectors := [(dev1, InSend
         \<lparr>Labels = [\<lparr>Name = ''ip'', Value = ''192.168.1.69''\<rparr>,
                    \<lparr>Name = ''__name__'', Value = ''current_power''\<rparr>],
          Samples = [\<lparr>Timestamp = 1000, Sample_Value = 10\<rparr>]\<rparr>)],
       trace := trace started @ [Send 0
         \<lparr>Labels = [\<lparr>Name = ''ip'', Value = ''192.168.1.69''\<rparr>,
                    \<lparr>Name = ''__name__'', Value = ''current_power''\<rparr>],
          Samples = [\<lparr>Timestamp = 1000, Sample_Value = 10\<rparr>]\<rparr>]\<rparr>"
    by (simp add: started_eq conf1_def dev1_def)
  with h1 h2 h3 h4 h5 h6 show ?thesis by simp
qed

text \<open>
  C2: what the code does where the claim is about. In the daemon of the example the
  tick of the collector finds that \<open>GetEnergyUsage\<close> returned the nil map and an
  error: the collector logs the error and "non zero error code", does not leave the
  case, and panics in the type assertion on \<open>r["result"]\<close>, which ends the process
  with status 2. In a second run the response has the error code -1501 and a reading:
  the collector logs "non zero error code" and sends the sample all the same.
\<close>

theorem CollectEnergyUsage_failed_poll_not_skipped:
  "run url_Parse1 conf1 [CollectorTick 0 [] (Some ''connection refused'') 1000] started =
     started\<lparr>proc := Exited 2, trace := trace started @
       [Log WarnLevel ''connection refused'', Log WarnLevel ''non zero error code'']\<rparr> \<and>
   run url_Parse1 conf1 [CollectorTick 0 [(''error_code'', JFloat64 (- 1501)),
         (''result'', JMap [(''current_power'', JFloat64 10)])] None 1000] started =
     started\<lparr>collectors := [(dev1, InSend (timeseries dev1 10 1000))],
       trace := trace started @
         [Log WarnLevel ''non zero error code'', Send 0 (timeseries dev1 10 1000)]\<rparr>"
  by (simp add: started_eq run_def step_def at_collector_def prog_defs stmt_defs index_def
      current_power_def assert_map_def assert_float64_def)

section \<open>Samples in flight, in the batch and accepted\<close>

lemma in_flight_update:
  "i < length gs \<Longrightarrow>
   mset (in_flight (gs[i := (c, g)])) + mset (pending (snd (gs ! i))) =
   mset (in_flight gs) + mset (pending g)"
proof (induction gs arbitrary: i)
  case Nil
  then show ?case by simp
next
  case (Cons a gs)
  show ?case
  proof (cases i)
    case 0
    then show ?thesis by (simp add: in_flight_def)
  next
    case (Suc j)
    with Cons.prems have "j < length gs" by simp
    from Cons.IH [OF this] show ?thesis
      using Suc by (simp add: in_flight_def)
  qed
qed

lemma in_flight_same:
  "i < length gs \<Longrightarrow> pending (snd (gs ! i)) = pending g \<Longrightarrow>
   mset (in_flight (gs[i := (c, g)])) = mset (in_flight gs)"
  using in_flight_update [of i gs c g] by simp

lemma in_flight_send:
  "i < length gs \<Longrightarrow> snd (gs ! i) = InSelect \<Longrightarrow>
   mset (in_flight (gs[i := (c, InSend ts)])) = mset (in_flight gs) + {#ts#}"
  using in_flight_update [of i gs c "InSend ts"] by simp

lemma in_flight_recv:
  "i < length gs \<Longrightarrow> snd (gs ! i) = InSend ts \<Longrightarrow>
   mset (in_flight (gs[i := (c, InSelect)])) + {#ts#} = mset (in_flight gs)"
  using in_flight_update [of i gs c InSelect] by simp

lemma step_accounted: "accounted s \<Longrightarrow> accounted (step url_Parse conf e s)"
proof (cases "proc s = Running \<and> enabled e s")
  case False
  assume "accounted s"
  with False show ?thesis by (auto simp: step_def)
next
  case True
  assume a: "accounted s"
  from True have r: "proc s = Running" and en: "enabled e s" by simp_all
  show ?thesis
  proof (cases e)
    case (CollectorStart i)
    with a r en show ?thesis
      by (auto simp: accounted_def step_def prog_defs stmt_defs at_collector_def in_flight_same)
  next
    case (CollectorTick i r' err now)
    show ?thesis
    proof (cases "current_power r'")
      case None
      with a r en CollectorTick show ?thesis
        by (simp add: accounted_def step_def tick_panics sent_append accepted_append
            split: option.splits)
    next
      case (Some v)
      with a r en CollectorTick show ?thesis
        by (simp add: accounted_def step_def tick_sends sent_append accepted_append
            at_collector_def in_flight_send split: option.splits)
    qed
  next
    case (CollectorStop i)
    with a r en show ?thesis
      by (auto simp: accounted_def step_def prog_defs stmt_defs at_collector_def in_flight_same
          sent_append accepted_append)
  next
    case (WriterStart ce)
    with a r en show ?thesis
      by (auto simp: accounted_def step_def prog_defs stmt_defs sent_append accepted_append)
  next
    case (WriterMetrics i)
    from en WriterMetrics obtain ts
      where i: "i < length (collectors s)" and g: "snd (collectors s ! i) = InSend ts"
      by (auto simp: sending_def split: goroutine.splits)
    from in_flight_recv [OF i g] a r en WriterMetrics g show ?thesis
      by (auto simp: accounted_def step_def prog_defs stmt_defs sent_append accepted_append
          ac_simps)
  next
    case (WriterTick me se)
    with a r en show ?thesis
      by (auto simp: accounted_def step_def RemoteWrite_tick_def stmt_defs Let_def sent_append
          accepted_append split: option.splits store_error.splits)
  next
    case WriterStop
    with a r en show ?thesis
      by (auto simp: accounted_def step_def prog_defs stmt_defs sent_append accepted_append)
  next
    case WaitReturn
    with a r en show ?thesis
      by (auto simp: accounted_def step_def prog_defs stmt_defs)
  qed
qed

lemma run_accounted: "accounted s \<Longrightarrow> accounted (run url_Parse conf es s)"
  by (induction es arbitrary: s) (simp_all add: run_Nil run_Cons step_accounted)

lemma connect_trace_obs:
  "sent (connect_trace ds) = []" "stored (connect_trace ds) = []"
  "accepted (connect_trace ds) = []" "spawned (connect_trace ds) = []"
  "connected (connect_trace ds) = ds"
  by (induction ds) (simp_all add: connect_trace_def)

lemma spawn_trace_obs:
  "sent (spawn_trace k n) = []" "stored (spawn_trace k n) = []"
  "accepted (spawn_trace k n) = []" "connected (spawn_trace k n) = []"
  "spawned (spawn_trace k n) = map Collector [k..<k + n]"
  by (induction n arbitrary: k) (simp_all add: spawn_trace_Suc upt_rec, simp_all add: spawn_trace_def)

lemma in_flight_NotStarted: "in_flight (map (\<lambda>d. (d, NotStarted)) ds) = []"
  by (induction ds) (simp_all add: in_flight_def)

text \<open>The three ways \<open>RunE\<close> ends: no device, a device that fails, all devices connected.\<close>

lemma RunE_cases:
  obtains (none) "Devices conf = []" "RunE NewTapo conf = init\<lparr>proc := Exited 1\<rparr>"
  | (fail) ok bad rest where "Devices conf = ok @ bad # rest" "NewTapo bad \<noteq> None"
      "RunE NewTapo conf =
         init\<lparr>proc := Exited 1, cs := ok, trace := connect_trace ok @ [Connect bad]\<rparr>"
  | (ok) "Devices conf \<noteq> []" "\<forall>d\<in>set (Devices conf). NewTapo d = None"
      "RunE NewTapo conf =
         \<lparr>proc = Running, stop_closed = False, wg = int (length (Devices conf)) + 1,
          cs = Devices conf, collectors = map (\<lambda>d. (d, NotStarted)) (Devices conf),
          writer = NotStarted, tss = [],
          trace = connect_trace (Devices conf) @ spawn_trace 0 (length (Devices conf)) @
            [Log InfoLevel ''starting RemoteWriter'', WgAdd, Go Writer]\<rparr>"
proof (cases "Devices conf = []")
  case True
  with none RunE_no_devices show ?thesis by blast
next
  case ne: False
  show ?thesis
  proof (cases "\<forall>d\<in>set (Devices conf). NewTapo d = None")
    case True
    with ne ok RunE_ok show ?thesis by blast
  next
    case False
    then obtain d where "d \<in> set (Devices conf)" "NewTapo d \<noteq> None" by blast
    from RunE_unreachable [of d conf NewTapo] this fail show ?thesis by blast
  qed
qed

lemma RunE_accounted: "accounted (RunE NewTapo conf)"
  by (rule RunE_cases [where conf = conf and NewTapo = NewTapo])
    (simp_all add: accounted_def init_def sent_append accepted_append connect_trace_obs
      spawn_trace_obs in_flight_NotStarted in_flight_def)

lemma RunE_nothing_stored:
  "stored (trace (RunE NewTapo conf)) = []" "accepted (trace (RunE NewTapo conf)) = []"
  by (rule RunE_cases [where conf = conf and NewTapo = NewTapo];
      simp add: init_def stored_append accepted_append connect_trace_obs spawn_trace_obs)+

lemma step_healthy:
  "stored (trace s) = accepted (trace s) \<Longrightarrow> healthy [e] \<Longrightarrow>
   stored (trace (step url_Parse conf e s)) = accepted (trace (step url_Parse conf e s))"
  by (cases e)
    (auto simp: step_def prog_defs stmt_defs Let_def stored_append accepted_append
      split: option.splits store_error.splits goroutine.splits)

lemma healthy_Cons: "healthy (e # es) = (healthy [e] \<and> healthy es)"
  by (cases e) simp_all

lemma run_healthy:
  "stored (trace s) = accepted (trace s) \<Longrightarrow> healthy es \<Longrightarrow>
   stored (trace (run url_Parse conf es s)) = accepted (trace (run url_Parse conf es s))"
proof (induction es arbitrary: s)
  case Nil
  then show ?case by (simp add: run_Nil)
next
  case (Cons e es)
  from Cons.prems(2) have h: "healthy [e]" "healthy es"
    using healthy_Cons [of e es] by simp_all
  from step_healthy [OF Cons.prems(1) h(1)] Cons.IH h(2) show ?case
    by (simp add: run_Cons)
qed

text \<open>
  C5, as stated, fails. In the daemon of the example one sample was sent by the
  collector. The sink refuses two flushes with a recoverable error and accepts the
  third: the one sample has been transmitted in three batches.
\<close>

theorem sample_transmitted_again:
  "sent (trace (run url_Parse1 conf1 [WriterTick None (Some (RecoverableError ''503'')),
       WriterTick None (Some (RecoverableError ''503'')), WriterTick None None] loaded)) =
     [timeseries dev1 10 1000] \<and>
   stored (trace (run url_Parse1 conf1 [WriterTick None (Some (RecoverableError ''503'')),
       WriterTick None (Some (RecoverableError ''503'')), WriterTick None None] loaded)) =
     [[timeseries dev1 10 1000], [timeseries dev1 10 1000], [timeseries dev1 10 1000]]"
  by (simp add: loaded_eq started_eq run_def step_def prog_defs stmt_defs)

section \<open>Endless schedules\<close>

lemma state_at_0: "state_at url_Parse conf sched s 0 = s"
  by (simp add: state_at_def run_def)

lemma state_at_Suc:
  "state_at url_Parse conf sched s (Suc k) =
     step url_Parse conf (sched k) (state_at url_Parse conf sched s k)"
  by (simp add: state_at_def run_def)

lemma state_at_add:
  "state_at url_Parse conf sched s (k + j) =
     run url_Parse conf (map sched [k..<k + j]) (state_at url_Parse conf sched s k)"
proof -
  have "[0..<k + j] = [0..<k] @ [k..<k + j]"
    by (rule upt_add_eq_append) simp
  then show ?thesis
    by (simp only: state_at_def map_append run_append)
qed

lemma state_at_Running:
  assumes "proc (state_at url_Parse conf sched s m) = Running" and "k \<le> m"
  shows "proc (state_at url_Parse conf sched s k) = Running"
proof -
  from assms(2) obtain j where "m = k + j"
    using le_Suc_ex by blast
  with assms(1) show ?thesis
    by (simp add: state_at_add run_Running)
qed

lemma healthy_append: "healthy (xs @ ys) = (healthy xs \<and> healthy ys)"
  by (induction xs rule: healthy.induct) simp_all

lemma healthy_schedule: "\<forall>k. healthy [sched k] \<Longrightarrow> healthy (map sched [0..<k])"
  by (induction k) (simp_all add: healthy_append)

lemma step_delivered_le: "delivered ts s \<le> delivered ts (step url_Parse conf e s)"
  by (cases e)
    (auto simp: delivered_def step_def prog_defs stmt_defs Let_def accepted_append
      split: option.splits store_error.splits goroutine.splits)

lemma step_held_le:
  "delivered ts s + batched ts s \<le>
   delivered ts (step url_Parse conf e s) + batched ts (step url_Parse conf e s)"
  by (cases e)
    (auto simp: delivered_def batched_def step_def prog_defs stmt_defs Let_def accepted_append
      split: option.splits store_error.splits goroutine.splits)

lemma step_keeps_sending:
  "at_collector i (InSend ts) s \<Longrightarrow> e \<noteq> WriterMetrics i \<Longrightarrow>
   at_collector i (InSend ts) (step url_Parse conf e s)"
  by (cases e)
    (auto simp: step_def prog_defs stmt_defs Let_def at_collector_def sending_def
      nth_list_update split: option.splits store_error.splits goroutine.splits)

lemma step_receive:
  assumes "proc s = Running" and "writer s = InSelect" and "at_collector i (InSend ts) s"
  shows "batched ts (step url_Parse conf (WriterMetrics i) s) = Suc (batched ts s)"
    and "delivered ts (step url_Parse conf (WriterMetrics i) s) = delivered ts s"
  using assms
  by (simp_all add: batched_def delivered_def step_def at_collector_def sending_def
      RemoteWrite_metrics_def receive_def stmt_defs accepted_append)

lemma step_flush:
  assumes "proc s = Running" and "writer s = InSelect"
  shows "delivered ts (step url_Parse conf (WriterTick None None) s) =
     delivered ts s + batched ts s"
  using assms
  by (cases "tss s = []")
    (simp_all add: delivered_def batched_def step_def tick_empty tick_ok accepted_append)

lemma step_writer_InSelect:
  "quiet s \<Longrightarrow> writer s = InSelect \<Longrightarrow> writer (step url_Parse conf e s) = InSelect"
  by (cases e)
    (auto simp: quiet_def step_def prog_defs stmt_defs Let_def
      split: option.splits store_error.splits goroutine.splits)

text \<open>
  A sample that a collector is blocked sending is in a batch that the sink accepts,
  some time later, when the process keeps running and the schedule has the receive
  from that collector and the flush tick accepted by the sink again and again.
\<close>

lemma eventually_delivered:
  assumes fairM: "\<forall>k. \<exists>m\<ge>k. sched m = WriterMetrics i"
    and fairT: "\<forall>k. \<exists>m\<ge>k. sched m = WriterTick None None"
    and live: "\<forall>k. proc (state_at url_Parse conf sched (RunE NewTapo conf) k) = Running"
    and send: "at_collector i (InSend ts) (state_at url_Parse conf sched (RunE NewTapo conf) n)"
    and wr: "writer (state_at url_Parse conf sched (RunE NewTapo conf) n) = InSelect"
  shows "\<exists>m\<ge>n. delivered ts (state_at url_Parse conf sched (RunE NewTapo conf) n) <
     delivered ts (state_at url_Parse conf sched (RunE NewTapo conf) m)"
proof -
  define S where "S = state_at url_Parse conf sched (RunE NewTapo conf)"
  have Suc: "S (Suc k) = step url_Parse conf (sched k) (S k)" for k
    by (simp add: S_def state_at_Suc)
  have run: "proc (S k) = Running" for k
    using live by (simp add: S_def)
  have "proc (RunE NewTapo conf) = Running"
    using run [of 0] by (simp add: S_def state_at_0)
  then have q: "quiet (S k)" for k
    by (simp add: S_def state_at_def reachable_quiet)
  have w: "writer (S m) = InSelect" if "n \<le> m" for m
    using that
  proof (induction m rule: dec_induct)
    case base
    show ?case using wr by (simp add: S_def)
  next
    case (step m)
    then show ?case by (simp add: Suc step_writer_InSelect q)
  qed
  define c where "c = delivered ts (S n)"
  have inv: "(at_collector i (InSend ts) (S m) \<and> c \<le> delivered ts (S m)) \<or>
      c < delivered ts (S m) + batched ts (S m)" if "n \<le> m" for m
    using that
  proof (induction m rule: dec_induct)
    case base
    show ?case using send by (simp add: S_def c_def)
  next
    case (step m)
    from step.IH show ?case
    proof
      assume a: "at_collector i (InSend ts) (S m) \<and> c \<le> delivered ts (S m)"
      show ?thesis
      proof (cases "sched m = WriterMetrics i")
        case True
        with a step_receive [OF run w [OF step.hyps(1)], of i ts url_Parse conf]
        show ?thesis by (simp add: Suc)
      next
        case False
        with a step_keeps_sending [of i ts "S m" "sched m" url_Parse conf]
          step_delivered_le [of ts "S m" url_Parse conf "sched m"]
        show ?thesis by (simp add: Suc)
      qed
    next
      assume "c < delivered ts (S m) + batched ts (S m)"
      with step_held_le [of ts "S m" url_Parse conf "sched m"]
      show ?thesis by (simp add: Suc)
    qed
  qed
  obtain m1 where m1: "n \<le> m1" "sched m1 = WriterMetrics i"
    using fairM by blast
  have b1: "c < delivered ts (S (Suc m1)) + batched ts (S (Suc m1))"
    using inv [OF m1(1)]
  proof
    assume "at_collector i (InSend ts) (S m1) \<and> c \<le> delivered ts (S m1)"
    with step_receive [OF run w [OF m1(1)], of i ts url_Parse conf]
    show ?thesis by (simp add: Suc m1(2))
  next
    assume "c < delivered ts (S m1) + batched ts (S m1)"
    with step_held_le [of ts "S m1" url_Parse conf "sched m1"]
    show ?thesis by (simp add: Suc)
  qed
  have b: "c < delivered ts (S m) + batched ts (S m)" if "Suc m1 \<le> m" for m
    using that
  proof (induction m rule: dec_induct)
    case base
    show ?case by (rule b1)
  next
    case (step m)
    with step_held_le [of ts "S m" url_Parse conf "sched m"]
    show ?case by (simp add: Suc)
  qed
  obtain m2 where m2: "Suc m1 \<le> m2" "sched m2 = WriterTick None None"
    using fairT by blast
  have "n \<le> m2" using m1(1) m2(1) by simp
  from step_flush [OF run w [OF this], of ts url_Parse conf] b [OF m2(1)]
  have "c < delivered ts (S (Suc m2))"
    by (simp add: Suc m2(2))
  moreover have "n \<le> Suc m2" using \<open>n \<le> m2\<close> by simp
  ultimately show ?thesis
    unfolding c_def S_def by blast
qed

lemma healthy_transmitted:
  assumes "\<forall>k. healthy [sched k]"
  shows "transmitted ts (state_at url_Parse conf sched (RunE NewTapo conf) k) =
     delivered ts (state_at url_Parse conf sched (RunE NewTapo conf) k)"
proof -
  have "stored (trace (state_at url_Parse conf sched (RunE NewTapo conf) k)) =
      accepted (trace (state_at url_Parse conf sched (RunE NewTapo conf) k))"
    unfolding state_at_def
    by (rule run_healthy) (simp_all add: RunE_nothing_stored healthy_schedule assms)
  then show ?thesis by (simp add: transmitted_def delivered_def)
qed

subsection \<open>Between two flush ticks\<close>

lemma step_no_flush:
  assumes "\<not> is_flush e" and "quiet s" and "writer s = InSelect"
  shows "prefix (tss s) (tss (step url_Parse conf e s))"
    and "stored (trace (step url_Parse conf e s)) = stored (trace s)"
  using assms
  by (cases e;
      auto simp: quiet_def step_def prog_defs stmt_defs Let_def stored_append
      split: option.splits store_error.splits goroutine.splits)+

lemma run_no_flush:
  assumes "proc (RunE NewTapo conf) = Running"
  shows "\<forall>e\<in>set ms. \<not> is_flush e \<Longrightarrow> s = run url_Parse conf es (RunE NewTapo conf) \<Longrightarrow>
     writer s = InSelect \<Longrightarrow>
     writer (run url_Parse conf ms s) = InSelect \<and>
     prefix (tss s) (tss (run url_Parse conf ms s)) \<and>
     stored (trace (run url_Parse conf ms s)) = stored (trace s)"
proof (induction ms arbitrary: s es)
  case Nil
  then show ?case by (simp add: run_Nil)
next
  case (Cons m ms)
  have q: "quiet s"
    unfolding Cons.prems(2) using assms by (rule reachable_quiet)
  let ?s = "step url_Parse conf m s"
  have r: "?s = run url_Parse conf (es @ [m]) (RunE NewTapo conf)"
    by (simp add: Cons.prems(2) run_append run_Cons run_Nil)
  have w: "writer ?s = InSelect"
    using q Cons.prems(3) by (rule step_writer_InSelect)
  have nf: "\<not> is_flush m" "\<forall>e\<in>set ms. \<not> is_flush e"
    using Cons.prems(1) by simp_all
  from Cons.IH [OF nf(2) r w] step_no_flush [OF nf(1) q Cons.prems(3), of url_Parse conf]
  show ?case
    by (auto simp: run_Cons intro: prefix_order.trans)
qed

subsection \<open>The schedule of the example\<close>

lemma sched1_prefix:
  "map sched1 [0..<3] =
     [CollectorStart 0, WriterStart None, CollectorTick 0 (reading 10) None 1000]"
  "map sched1 [0..<4] =
     [CollectorStart 0, WriterStart None, CollectorTick 0 (reading 10) None 1000,
      WriterMetrics 0]"
  "map sched1 [0..<5] =
     [CollectorStart 0, WriterStart None, CollectorTick 0 (reading 10) None 1000,
      WriterMetrics 0, WriterTick None None]"
proof -
  have u: "[0..<3] = [0, 1, 2::nat]" "[0..<4] = [0, 1, 2, 3::nat]"
      "[0..<5] = [0, 1, 2, 3, 4::nat]"
    by code_simp+
  show "map sched1 [0..<3] =
     [CollectorStart 0, WriterStart None, CollectorTick 0 (reading 10) None 1000]"
    and "map sched1 [0..<4] =
     [CollectorStart 0, WriterStart None, CollectorTick 0 (reading 10) None 1000,
      WriterMetrics 0]"
    and "map sched1 [0..<5] =
     [CollectorStart 0, WriterStart None, CollectorTick 0 (reading 10) None 1000,
      WriterMetrics 0, WriterTick None None]"
    by (simp_all add: u sched1_def)
qed

lemma sched1_later:
  "5 \<le> k \<Longrightarrow> sched1 k = (if odd k then WriterMetrics 0 else WriterTick None None)"
  by (simp add: sched1_def)

lemma sched1_fair:
  "\<forall>k. \<exists>m\<ge>k. sched1 m = WriterMetrics 0" "\<forall>k. \<exists>m\<ge>k. sched1 m = WriterTick None None"
proof -
  have "sched1 (2 * k + 3) = WriterMetrics 0" "sched1 (2 * k + 4) = WriterTick None None" for k
    by (simp_all add: sched1_def)
  moreover have "k \<le> 2 * k + 3" "k \<le> 2 * k + 4" for k :: nat
    by simp_all
  ultimately show "\<forall>k. \<exists>m\<ge>k. sched1 m = WriterMetrics 0"
    and "\<forall>k. \<exists>m\<ge>k. sched1 m = WriterTick None None"
    by blast+
qed

lemma sched1_healthy: "\<forall>k. healthy [sched1 k]"
  by (simp add: sched1_def)

lemma sched1_states:
  "state_at url_Parse1 conf1 sched1 (RunE (\<lambda>d. None) conf1) 3 =
     started\<lparr>collectors := [(dev1, InSend (timeseries dev1 10 1000))],
       trace := trace started @ [Send 0 (timeseries dev1 10 1000)]\<rparr>"
  "state_at url_Parse1 conf1 sched1 (RunE (\<lambda>d. None) conf1) 4 = loaded"
  "state_at url_Parse1 conf1 sched1 (RunE (\<lambda>d. None) conf1) 5 =
     loaded\<lparr>tss := [], trace := trace loaded @
       [Log DebugLevel ''performing batched remote write for %d timeseries'',
        Store [timeseries dev1 10 1000] None, Log InfoLevel ''pushed %d timeseries'']\<rparr>"
proof -
  have 4: "state_at url_Parse1 conf1 sched1 (RunE (\<lambda>d. None) conf1) 4 = loaded"
    unfolding state_at_def sched1_prefix loaded_def started_def run_append [symmetric]
    by simp
  have 3: "state_at url_Parse1 conf1 sched1 (RunE (\<lambda>d. None) conf1) 3 =
      run url_Parse1 conf1 [CollectorTick 0 (reading 10) None 1000] started"
    unfolding state_at_def sched1_prefix started_def run_append [symmetric]
    by simp
  have 5: "state_at url_Parse1 conf1 sched1 (RunE (\<lambda>d. None) conf1) 5 =
      run url_Parse1 conf1 [WriterTick None None] loaded"
    unfolding state_at_def sched1_prefix loaded_def started_def run_append [symmetric]
    by simp
  show "state_at url_Parse1 conf1 sched1 (RunE (\<lambda>d. None) conf1) 4 = loaded"
    by (rule 4)
  show "state_at url_Parse1 conf1 sched1 (RunE (\<lambda>d. None) conf1) 3 =
     started\<lparr>collectors := [(dev1, InSend (timeseries dev1 10 1000))],
       trace := trace started @ [Send 0 (timeseries dev1 10 1000)]\<rparr>"
    unfolding 3
    by (simp add: started_eq run_def step_def at_collector_def prog_defs stmt_defs reading_def
        index_def current_power_def assert_map_def assert_float64_def)
  show "state_at url_Parse1 conf1 sched1 (RunE (\<lambda>d. None) conf1) 5 =
     loaded\<lparr>tss := [], trace := trace loaded @
       [Log DebugLevel ''performing batched remote write for %d timeseries'',
        Store [timeseries dev1 10 1000] None, Log InfoLevel ''pushed %d timeseries'']\<rparr>"
    unfolding 5
    by (simp add: loaded_eq started_eq run_def step_def prog_defs stmt_defs)
qed

lemma sched1_live:
  "proc (state_at url_Parse1 conf1 sched1 (RunE (\<lambda>d. None) conf1) k) = Running"
proof -
  define S where "S = state_at url_Parse1 conf1 sched1 (RunE (\<lambda>d. None) conf1)"
  have J: "proc (S k) = Running \<and> writer (S k) = InSelect \<and> tss (S k) = [] \<and>
      collectors (S k) = [(dev1, InSelect)]" if "5 \<le> k" for k
    using that
  proof (induction k rule: dec_induct)
    case base
    show ?case by (simp add: S_def sched1_states loaded_eq started_eq)
  next
    case (step k)
    have "S (Suc k) = step url_Parse1 conf1 (sched1 k) (S k)"
      by (simp add: S_def state_at_Suc)
    with step show ?case
      by (simp add: sched1_later step_def sending_def tick_empty)
  qed
  show ?thesis
  proof (cases "5 \<le> k")
    case True
    with J show ?thesis by (simp add: S_def)
  next
    case False
    then have "k \<le> 5" by simp
    moreover have "proc (S 5) = Running" using J [of 5] by simp
    ultimately show ?thesis
      unfolding S_def by (rule state_at_Running [rotated])
  qed
qed

text \<open>
  C5, amended. In every state of a daemon started from \<open>conf\<close>, the samples the
  collectors have sent are, counted with repetition, the samples of the batches the
  sink accepted, those of the current batch and those still in a blocked send: a
  sample is in at most one accepted batch. A batch that the sink refuses with a
  recoverable error stays the batch, and the next flush tick whose marshalling succeeds
  transmits it again, ahead of what was received in between, whatever steps the
  process takes before that tick while it runs: a sample can be in more than one
  transmitted batch. In
  a run without marshal or sink errors every transmitted batch is an accepted one, so
  there every sample sent is in exactly one place: one transmitted batch, the current
  batch, or the blocked send. And in an endless run without such errors in which the
  process keeps running, a sample that its collector is sending while \<open>RemoteWrite\<close>
  is in its \<open>select\<close> is transmitted some time later, provided \<open>RemoteWrite\<close> takes
  the receive from that collector and the flush tick again and again.
\<close>

theorem samples_accounted:
  assumes "s = run url_Parse conf es (RunE NewTapo conf)"
  shows "mset (sent (trace s)) =
           mset (concat (accepted (trace s))) + mset (tss s) + mset (in_flight (collectors s)) \<and>
         mset (concat (accepted (trace s))) \<subseteq># mset (sent (trace s)) \<and>
         (healthy es \<longrightarrow>
            mset (sent (trace s)) =
              mset (concat (stored (trace s))) + mset (tss s) +
              mset (in_flight (collectors s))) \<and>
         (proc s = Running \<and> writer s = InSelect \<and> tss s \<noteq> [] \<and>
          (\<forall>m\<in>set ms. \<not> is_flush m) \<and>
          proc (run url_Parse conf (WriterTick None (Some (RecoverableError e)) # ms) s) =
            Running \<longrightarrow>
            tss (step url_Parse conf (WriterTick None (Some (RecoverableError e))) s) = tss s \<and>
            prefix (tss s)
              (tss (run url_Parse conf (WriterTick None (Some (RecoverableError e)) # ms) s)) \<and>
            stored (trace (run url_Parse conf
              (WriterTick None (Some (RecoverableError e)) # ms @ [WriterTick None store_err])
              s)) =
              stored (trace s) @
              [tss s,
               tss (run url_Parse conf (WriterTick None (Some (RecoverableError e)) # ms) s)]) \<and>
         ((\<forall>k. healthy [sched k]) \<and>
          (\<forall>k. proc (state_at url_Parse conf sched (RunE NewTapo conf) k) = Running) \<and>
          (\<forall>k. \<exists>m\<ge>k. sched m = WriterMetrics i) \<and>
          (\<forall>k. \<exists>m\<ge>k. sched m = WriterTick None None) \<and>
          at_collector i (InSend ts) (state_at url_Parse conf sched (RunE NewTapo conf) n) \<and>
          writer (state_at url_Parse conf sched (RunE NewTapo conf) n) = InSelect \<longrightarrow>
            (\<exists>m\<ge>n. transmitted ts (state_at url_Parse conf sched (RunE NewTapo conf) n) <
               transmitted ts (state_at url_Parse conf sched (RunE NewTapo conf) m)))"
proof -
  have acc: "accounted s"
    unfolding assms by (rule run_accounted) (rule RunE_accounted)
  then have 1: "mset (sent (trace s)) =
      mset (concat (accepted (trace s))) + mset (tss s) + mset (in_flight (collectors s))"
    by (simp add: accounted_def)
  then have 2: "mset (concat (accepted (trace s))) \<subseteq># mset (sent (trace s))"
    by simp
  have 3: "mset (sent (trace s)) =
      mset (concat (stored (trace s))) + mset (tss s) + mset (in_flight (collectors s))"
    if "healthy es"
  proof -
    have "stored (trace s) = accepted (trace s)"
      unfolding assms by (rule run_healthy) (simp_all add: RunE_nothing_stored that)
    with 1 show ?thesis by simp
  qed
  have 4: "tss (step url_Parse conf (WriterTick None (Some (RecoverableError e))) s) = tss s \<and>
      prefix (tss s)
        (tss (run url_Parse conf (WriterTick None (Some (RecoverableError e)) # ms) s)) \<and>
      stored (trace (run url_Parse conf
        (WriterTick None (Some (RecoverableError e)) # ms @ [WriterTick None store_err]) s)) =
        stored (trace s) @
        [tss s, tss (run url_Parse conf (WriterTick None (Some (RecoverableError e)) # ms) s)]"
    if "proc s = Running" "writer s = InSelect" "tss s \<noteq> []"
      and nf: "\<forall>m\<in>set ms. \<not> is_flush m"
      and r2: "proc (run url_Parse conf (WriterTick None (Some (RecoverableError e)) # ms) s) =
        Running"
  proof -
    let ?s1 = "step url_Parse conf (WriterTick None (Some (RecoverableError e))) s"
    let ?s2 = "run url_Parse conf ms ?s1"
    have s1: "?s1 = RemoteWrite_tick None (Some (RecoverableError e)) s"
      using that(1,2) by (simp add: step_def)
    have k: "writer ?s1 = InSelect" "tss ?s1 = tss s"
        "stored (trace ?s1) = stored (trace s) @ [tss s]"
      using that(1-3) by (simp_all add: s1 tick_recoverable stored_append)
    have r0: "proc (RunE NewTapo conf) = Running"
      using that(1) unfolding assms by (rule run_Running)
    have e1: "?s1 = run url_Parse conf (es @ [WriterTick None (Some (RecoverableError e))])
        (RunE NewTapo conf)"
      by (simp add: assms run_append run_Cons run_Nil)
    note n = run_no_flush [OF r0 nf e1 k(1)]
    from n k(2) have p: "prefix (tss s) (tss ?s2)"
      by simp
    with that(3) have ne: "tss ?s2 \<noteq> []"
      by auto
    have p2: "proc ?s2 = Running"
      using r2 by (simp add: run_Cons)
    have "step url_Parse conf (WriterTick None store_err) ?s2 =
        RemoteWrite_tick None store_err ?s2"
      using p2 n by (simp add: step_def)
    then have "stored (trace (step url_Parse conf (WriterTick None store_err) ?s2)) =
        stored (trace s) @ [tss s, tss ?s2]"
      using tick_stores [OF p2 ne, of store_err] n k(3) by simp
    with p k(2) show ?thesis
      by (simp add: run_Cons run_append run_Nil)
  qed
  have 5: "\<exists>m\<ge>n. transmitted ts (state_at url_Parse conf sched (RunE NewTapo conf) n) <
      transmitted ts (state_at url_Parse conf sched (RunE NewTapo conf) m)"
    if h: "\<forall>k. healthy [sched k]"
      and l: "\<forall>k. proc (state_at url_Parse conf sched (RunE NewTapo conf) k) = Running"
      and fm: "\<forall>k. \<exists>m\<ge>k. sched m = WriterMetrics i"
      and ft: "\<forall>k. \<exists>m\<ge>k. sched m = WriterTick None None"
      and sd: "at_collector i (InSend ts) (state_at url_Parse conf sched (RunE NewTapo conf) n)"
      and wr: "writer (state_at url_Parse conf sched (RunE NewTapo conf) n) = InSelect"
    using eventually_delivered [OF fm ft l sd wr]
    by (simp add: healthy_transmitted [OF h])
  from 1 2 3 4 5 show ?thesis by blast
qed

theorem samples_accounted_witness:
  "loaded = run url_Parse1 conf1 [CollectorStart 0, WriterStart None,
     CollectorTick 0 (reading 10) None 1000, WriterMetrics 0] (RunE (\<lambda>d. None) conf1) \<and>
   healthy [CollectorStart 0, WriterStart None, CollectorTick 0 (reading 10) None 1000,
     WriterMetrics 0] \<and>
   proc loaded = Running \<and> writer loaded = InSelect \<and> tss loaded \<noteq> [] \<and>
   (\<forall>k. healthy [sched1 k]) \<and>
   (\<forall>k. proc (state_at url_Parse1 conf1 sched1 (RunE (\<lambda>d. None) conf1) k) = Running) \<and>
   (\<forall>k. \<exists>m\<ge>k. sched1 m = WriterMetrics 0) \<and>
   (\<forall>k. \<exists>m\<ge>k. sched1 m = WriterTick None None) \<and>
   at_collector 0 (InSend (timeseries dev1 10 1000))
     (state_at url_Parse1 conf1 sched1 (RunE (\<lambda>d. None) conf1) 3) \<and>
   writer (state_at url_Parse1 conf1 sched1 (RunE (\<lambda>d. None) conf1) 3) = InSelect \<and>
   mset (sent (trace loaded)) =
     mset (concat (stored (trace loaded))) + mset (tss loaded) +
     mset (in_flight (collectors loaded)) \<and>
   \<not> is_flush (CollectorTick 0 (reading 12) None 2000) \<and> \<not> is_flush (WriterMetrics 0) \<and>
   proc (run url_Parse1 conf1 [WriterTick None (Some (RecoverableError ''429'')),
     CollectorTick 0 (reading 12) None 2000, WriterMetrics 0] loaded) = Running \<and>
   stored (trace (run url_Parse1 conf1
     [WriterTick None (Some (RecoverableError ''429'')),
      CollectorTick 0 (reading 12) None 2000, WriterMetrics 0, WriterTick None None]
     loaded)) =
     [[timeseries dev1 10 1000], [timeseries dev1 10 1000, timeseries dev1 12 2000]] \<and>
   (\<exists>m\<ge>3. transmitted (timeseries dev1 10 1000)
       (state_at url_Parse1 conf1 sched1 (RunE (\<lambda>d. None) conf1) 3) <
     transmitted (timeseries dev1 10 1000)
       (state_at url_Parse1 conf1 sched1 (RunE (\<lambda>d. None) conf1) m)) \<and>
   transmitted (timeseries dev1 10 1000)
     (state_at url_Parse1 conf1 sched1 (RunE (\<lambda>d. None) conf1) 3) = 0 \<and>
   transmitted (timeseries dev1 10 1000)
     (state_at url_Parse1 conf1 sched1 (RunE (\<lambda>d. None) conf1) 5) = 1"
proof -
  let ?es = "[CollectorStart 0, WriterStart None, CollectorTick 0 (reading 10) None 1000,
     WriterMetrics 0]"
  let ?S = "state_at url_Parse1 conf1 sched1 (RunE (\<lambda>d. None) conf1)"
  have e: "loaded = run url_Parse1 conf1 ?es (RunE (\<lambda>d. None) conf1)"
    unfolding loaded_def started_def run_append [symmetric] by simp
  have h: "healthy ?es" by simp
  have l: "proc loaded = Running" "writer loaded = InSelect" "tss loaded \<noteq> []"
    by (simp_all add: loaded_eq started_eq)
  have s3: "at_collector 0 (InSend (timeseries dev1 10 1000)) (?S 3)" "writer (?S 3) = InSelect"
    by (simp_all add: sched1_states started_eq at_collector_def)
  have t: "transmitted (timeseries dev1 10 1000) (?S 3) = 0"
      "transmitted (timeseries dev1 10 1000) (?S 5) = 1"
    by (simp_all add: transmitted_def sched1_states loaded_eq started_eq)
  note live = sched1_live [THEN allI]
  let ?ms = "[CollectorTick 0 (reading 12) None 2000, WriterMetrics 0]"
  have nf2: "\<not> is_flush (CollectorTick 0 (reading 12) None 2000)" "\<not> is_flush (WriterMetrics 0)"
    by simp_all
  then have nf: "\<forall>m\<in>set ?ms. \<not> is_flush m"
    by simp
  have ev: "run url_Parse1 conf1 (WriterTick None (Some (RecoverableError ''429'')) # ?ms) loaded =
      loaded\<lparr>tss := [timeseries dev1 10 1000, timeseries dev1 12 2000],
        trace := trace loaded @
          [Log DebugLevel ''performing batched remote write for %d timeseries'',
           Store [timeseries dev1 10 1000] (Some (RecoverableError ''429'')),
           Log InfoLevel ''recoverable error %s'',
           Send 0 (timeseries dev1 12 2000), Log DebugLevel ''received time-series'']\<rparr>"
    by (simp add: loaded_eq started_eq run_def step_def at_collector_def sending_def prog_defs
        stmt_defs reading_def index_def current_power_def assert_map_def assert_float64_def)
  have r2: "proc (run url_Parse1 conf1
      (WriterTick None (Some (RecoverableError ''429'')) # ?ms) loaded) = Running"
    unfolding ev by (simp add: loaded_eq started_eq)
  note T = samples_accounted [OF e, where sched = sched1 and i = 0
      and ts = "timeseries dev1 10 1000" and n = 3 and e = "''429''" and store_err = None
      and ms = ?ms]
  from T h have a: "mset (sent (trace loaded)) =
     mset (concat (stored (trace loaded))) + mset (tss loaded) +
     mset (in_flight (collectors loaded))"
    by blast
  from T l nf r2 have "stored (trace (run url_Parse1 conf1
      (WriterTick None (Some (RecoverableError ''429'')) # ?ms @ [WriterTick None None])
      loaded)) =
     stored (trace loaded) @ [tss loaded, tss (run url_Parse1 conf1
       (WriterTick None (Some (RecoverableError ''429'')) # ?ms) loaded)]"
    by blast
  then have b: "stored (trace (run url_Parse1 conf1
     [WriterTick None (Some (RecoverableError ''429'')),
      CollectorTick 0 (reading 12) None 2000, WriterMetrics 0, WriterTick None None]
     loaded)) =
     [[timeseries dev1 10 1000], [timeseries dev1 10 1000, timeseries dev1 12 2000]]"
    unfolding ev by (simp add: loaded_eq started_eq)
  have hyps: "(\<forall>k. healthy [sched1 k]) \<and> (\<forall>k. proc (?S k) = Running) \<and>
      (\<forall>k. \<exists>m\<ge>k. sched1 m = WriterMetrics 0) \<and>
      (\<forall>k. \<exists>m\<ge>k. sched1 m = WriterTick None None) \<and>
      at_collector 0 (InSend (timeseries dev1 10 1000)) (?S 3) \<and> writer (?S 3) = InSelect"
    using sched1_healthy live sched1_fair s3 by (intro conjI)
  from T [THEN conjunct2, THEN conjunct2, THEN conjunct2, THEN conjunct2, THEN mp, OF hyps]
  have c: "\<exists>m\<ge>3. transmitted (timeseries dev1 10 1000) (?S 3) <
     transmitted (timeseries dev1 10 1000) (?S m)" .
  note a b c
  with e h l hyps t nf2 r2 show ?thesis
    by (simp only: simp_thms append_Cons append_Nil)
qed

section \<open>Start-up and exit status\<close>



lemma registered_first_connect:
  "registered_first n (connect_trace ds @ ys) = registered_first n ys"
  by (induction ds) (simp_all add: connect_trace_def)

lemma registered_first_spawn:
  "registered_first n (spawn_trace k m @ ys) = registered_first n ys"
  by (induction m arbitrary: k) (simp_all add: spawn_trace_Suc, simp add: spawn_trace_def)

lemma RunE_registered_first: "registered_first 0 (trace (RunE NewTapo conf))"
proof (rule RunE_cases [where conf = conf and NewTapo = NewTapo])
  assume "RunE NewTapo conf = init\<lparr>proc := Exited 1\<rparr>"
  then show ?thesis by (simp add: init_def)
next
  fix ok bad rest
  assume "RunE NewTapo conf =
    init\<lparr>proc := Exited 1, cs := ok, trace := connect_trace ok @ [Connect bad]\<rparr>"
  then show ?thesis by (simp add: registered_first_connect)
next
  assume "RunE NewTapo conf =
     \<lparr>proc = Running, stop_closed = False, wg = int (length (Devices conf)) + 1,
      cs = Devices conf, collectors = map (\<lambda>d. (d, NotStarted)) (Devices conf),
      writer = NotStarted, tss = [],
      trace = connect_trace (Devices conf) @ spawn_trace 0 (length (Devices conf)) @
        [Log InfoLevel ''starting RemoteWriter'', WgAdd, Go Writer]\<rparr>"
  then show ?thesis by (simp add: registered_first_connect registered_first_spawn)
qed


lemma RunE_not_started:
  assumes "proc (RunE NewTapo conf) \<noteq> Running"
  shows "proc (RunE NewTapo conf) = Exited 1 \<and> spawned (trace (RunE NewTapo conf)) = []"
proof (rule RunE_cases [where conf = conf and NewTapo = NewTapo])
  assume "RunE NewTapo conf = init\<lparr>proc := Exited 1\<rparr>"
  then show ?thesis by (simp add: init_def)
next
  fix ok bad rest
  assume "RunE NewTapo conf =
    init\<lparr>proc := Exited 1, cs := ok, trace := connect_trace ok @ [Connect bad]\<rparr>"
  then show ?thesis by (simp add: spawned_append connect_trace_obs)
next
  assume "RunE NewTapo conf =
     \<lparr>proc = Running, stop_closed = False, wg = int (length (Devices conf)) + 1,
      cs = Devices conf, collectors = map (\<lambda>d. (d, NotStarted)) (Devices conf),
      writer = NotStarted, tss = [],
      trace = connect_trace (Devices conf) @ spawn_trace 0 (length (Devices conf)) @
        [Log InfoLevel ''starting RemoteWriter'', WgAdd, Go Writer]\<rparr>"
  with assms show ?thesis by simp
qed







section \<open>The end of the process on a fatal error\<close>

text \<open>
  C10: what the code does where the claim is about. The endpoint of the
  configuration starts with a colon, which \<open>url.Parse\<close> rejects. \<open>RemoteWrite\<close>
  takes its error path (lines 120-124), written \<open>log.Fatal; close(stop); return\<close>
  with no \<open>wg.Done()\<close>, unlike the path of the closed \<open>stop\<close> channel (lines
  154-160): the fatal log call ends the process with status 1, and in the state the
  process ends in no \<open>wg.Done()\<close> is in the trace and the counter is still 2. The
  task was registered before it was spawned (\<open>RunE_registered_first\<close>), but it has
  not deregistered on this path.
\<close>

theorem RemoteWrite_error_path_no_Done:
  "run url_Parse1 conf_colon [WriterStart None] (RunE (\<lambda>d. None) conf_colon) =
     \<lparr>proc = Exited 1, stop_closed = False, wg = 2, cs = [dev1],
      collectors = [(dev1, NotStarted)], writer = NotStarted, tss = [],
      trace = [Connect dev1, Log InfoLevel ''connected to device %s'', WgAdd,
        Log InfoLevel ''starting CollectEnergyUsage for %s'', Go (Collector 0),
        Log InfoLevel ''starting RemoteWriter'', WgAdd, Go Writer,
        Log FatalLevel ''cannot parse endpoint url, stopping'']\<rparr>"
  by (simp add: conf_colon_def run_def step_def RunE_def conf1_def init_def connect_def
      start_collector_def prog_defs stmt_defs url_Parse1_def)

text \<open>
  C6: what the code does where the claim is about. In the daemon of the example a
  collector is blocked in its send on \<open>metrics\<close> when the sink answers a flush with an
  error that is not recoverable (a 400). The fatal log call ends the process with
  status 1 before \<open>close(stop)\<close> of line 185 runs: in the state the process ends in,
  the send was never received, the \<open>stop\<close> channel is open, and the WaitGroup counter
  is 2, not zero.
\<close>

theorem fatal_exit_barrier_not_zero:
  "run url_Parse1 conf1 [WriterTick None (Some (OtherError ''400''))] pushing =
     \<lparr>proc = Exited 1, stop_closed = False, wg = 2, cs = [dev1],
      collectors = [(dev1, InSend (timeseries dev1 12 2000))], writer = InSelect,
      tss = [timeseries dev1 10 1000],
      trace = [Connect dev1, Log InfoLevel ''connected to device %s'', WgAdd,
        Log InfoLevel ''starting CollectEnergyUsage for %s'', Go (Collector 0),
        Log InfoLevel ''starting RemoteWriter'', WgAdd, Go Writer,
        Send 0 (timeseries dev1 10 1000), Log DebugLevel ''received time-series'',
        Send 0 (timeseries dev1 12 2000),
        Log DebugLevel ''performing batched remote write for %d timeseries'',
        Store [timeseries dev1 10 1000] (Some (OtherError ''400'')),
        Log FatalLevel ''error pushing timeseries: %s'']\<rparr>"
  by (simp add: pushing_eq loaded_eq started_eq run_def step_def prog_defs stmt_defs)

text \<open>
  The same in general: in no state of a daemon that started is the \<open>stop\<close> channel
  closed, has a task returned, or is the WaitGroup counter anything but the number of
  tasks; \<open>wg.Wait()\<close> never returns, and no run ends with exit status 0.
\<close>

lemma stop_never_closed:
  assumes "proc (RunE NewTapo conf) = Running"
  shows "quiet (run url_Parse conf es (RunE NewTapo conf))"
  using assms by (rule reachable_quiet)

lemma step_not_exit_0:
  "quiet s \<Longrightarrow> proc s = Running \<Longrightarrow> proc (step url_Parse conf e s) \<noteq> Exited 0"
  by (cases e)
    (auto simp: quiet_def step_def prog_defs stmt_defs Let_def
      split: option.splits store_error.splits goroutine.splits)

lemma no_clean_shutdown: "proc (run url_Parse conf es (RunE NewTapo conf)) \<noteq> Exited 0"
proof (cases "proc (RunE NewTapo conf) = Running")
  case True
  show ?thesis
  proof (induction es rule: rev_induct)
    case Nil
    show ?case by (simp add: run_Nil True)
  next
    case (snoc e es)
    let ?s = "run url_Parse conf es (RunE NewTapo conf)"
    have q: "quiet ?s"
      using True by (rule reachable_quiet)
    show ?case
    proof (cases "proc ?s = Running")
      case True
      with q show ?thesis
        by (simp add: run_append run_Cons run_Nil step_not_exit_0)
    next
      case False
      with snoc show ?thesis
        by (simp add: run_append run_Cons run_Nil step_halted)
    qed
  qed
next
  case False
  then have "proc (RunE NewTapo conf) = Exited 1"
    using RunE_not_started by blast
  then show ?thesis
    by (simp add: run_halted)
qed

end
